theory Spec2Isabelle
  imports Complex_Main "HOL-Library.Sublist" "HOL-Library.Stream"
begin

section \<open>Text primitives of the Python runtime\<close>

text \<open>
  A Python string is a sequence of code points. It is modelled as \<open>string\<close> with one
  character per code point, so the texts modelled are those whose code points are below
  256 (ASCII and the Latin-1 supplement); \<open>of_char\<close> gives the code point. The
  character classes are Python's on these code points: \<open>\d\<close> is the decimal digits,
  which below 256 are \<open>0\<close> to \<open>9\<close>; \<open>\w\<close> is what \<open>str.isalnum\<close> accepts and
  the underscore; \<open>\s\<close> is what \<open>str.isspace\<close> accepts.
\<close>

definition is_digit :: "char \<Rightarrow> bool" where
  \<comment> \<open>\<open>\d\<close>, and the digits \<open>int\<close> reads\<close>
  "is_digit c = (48 \<le> (of_char c :: nat) \<and> (of_char c :: nat) \<le> 57)"

definition is_upper :: "char \<Rightarrow> bool" where
  \<comment> \<open>\<open>[A-Z]\<close>\<close>
  "is_upper c = (65 \<le> (of_char c :: nat) \<and> (of_char c :: nat) \<le> 90)"

definition is_lower :: "char \<Rightarrow> bool" where
  \<comment> \<open>\<open>[a-z]\<close>\<close>
  "is_lower c = (97 \<le> (of_char c :: nat) \<and> (of_char c :: nat) \<le> 122)"

definition is_latin1_alnum :: "char \<Rightarrow> bool" where
  \<comment> \<open>the letters and numeric characters from 128 to 255: the ordinal indicators, the
      micro sign, superscript 1 to 3, the fractions and the accented letters (all but the
      multiplication and division signs from 192 on)\<close>
  "is_latin1_alnum c =
     ((of_char c :: nat) \<in> {170, 178, 179, 181, 185, 186, 188, 189, 190}
      \<or> (192 \<le> (of_char c :: nat) \<and> (of_char c :: nat) \<le> 214)
      \<or> (216 \<le> (of_char c :: nat) \<and> (of_char c :: nat) \<le> 246)
      \<or> (248 \<le> (of_char c :: nat) \<and> (of_char c :: nat) \<le> 255))"

definition is_word :: "char \<Rightarrow> bool" where
  \<comment> \<open>\<open>\w\<close>: letters, digits and other numeric characters, and the underscore\<close>
  "is_word c = (is_digit c \<or> is_upper c \<or> is_lower c \<or> c = CHR ''_'' \<or> is_latin1_alnum c)"

definition is_space :: "char \<Rightarrow> bool" where
  \<comment> \<open>\<open>\s\<close> and the separators of \<open>str.split()\<close>: tab, LF, VT, FF, CR, FS, GS, RS, US,
      space, and beyond ASCII the next-line control and the no-break space\<close>
  "is_space c = ((9 \<le> (of_char c :: nat) \<and> (of_char c :: nat) \<le> 13)
                 \<or> (28 \<le> (of_char c :: nat) \<and> (of_char c :: nat) \<le> 32)
                 \<or> (of_char c :: nat) = 133 \<or> (of_char c :: nat) = 160)"

definition lower_char :: "char \<Rightarrow> char" where
  \<comment> \<open>\<open>str.lower()\<close> on one code point: \<open>A\<close> to \<open>Z\<close> and the accented capitals
      (192 to 222 but the multiplication sign) move up by 32\<close>
  "lower_char c =
     (if is_upper c \<or> (192 \<le> (of_char c :: nat) \<and> (of_char c :: nat) \<le> 222 \<and> (of_char c :: nat) \<noteq> 215)
      then char_of ((of_char c :: nat) + 32) else c)"

definition lower :: "string \<Rightarrow> string" where
  \<comment> \<open>\<open>str.lower()\<close>\<close>
  "lower s = map lower_char s"

definition contains :: "string \<Rightarrow> string \<Rightarrow> bool" where
  \<comment> \<open>\<open>needle in hay\<close>\<close>
  "contains needle hay = sublist needle hay"

fun int_of_digits_acc :: "int \<Rightarrow> string \<Rightarrow> int" where
  "int_of_digits_acc a [] = a"
| "int_of_digits_acc a (c # cs) = int_of_digits_acc (10 * a + (int (of_char c) - 48)) cs"

definition int_of_digits :: "string \<Rightarrow> int" where
  \<comment> \<open>\<open>int(s)\<close> on a string of decimal digits\<close>
  "int_of_digits s = int_of_digits_acc 0 s"

fun split_ws_acc :: "string \<Rightarrow> string \<Rightarrow> string list" where
  "split_ws_acc cur [] = (if cur = [] then [] else [cur])"
| "split_ws_acc cur (c # cs) =
     (if is_space c then (if cur = [] then split_ws_acc [] cs else cur # split_ws_acc [] cs)
      else split_ws_acc (cur @ [c]) cs)"

definition split_ws :: "string \<Rightarrow> string list" where
  \<comment> \<open>\<open>s.split()\<close>: the maximal runs of non-whitespace\<close>
  "split_ws s = split_ws_acc [] s"

fun split_acc :: "string \<Rightarrow> string \<Rightarrow> string \<Rightarrow> string list" where
  "split_acc sep cur [] = [cur]"
| "split_acc sep cur (c # cs) =
     (if sep \<noteq> [] \<and> prefix sep (c # cs)
      then cur # split_acc sep [] (drop (length sep) (c # cs))
      else split_acc sep (cur @ [c]) cs)"

definition split_on :: "string \<Rightarrow> string \<Rightarrow> string list" where
  \<comment> \<open>\<open>s.split(sep)\<close> for a non-empty separator (every call of the source passes a
      non-empty literal): the pieces between the leftmost non-overlapping occurrences\<close>
  "split_on sep s = split_acc sep [] s"

fun join :: "string \<Rightarrow> string list \<Rightarrow> string" where
  "join sep [] = []"
| "join sep [x] = x"
| "join sep (x # y # ys) = x @ sep @ join sep (y # ys)"

fun str_nat :: "nat \<Rightarrow> string" where
  "str_nat n = (if n < 10 then [char_of (48 + n)] else str_nat (n div 10) @ [char_of (48 + n mod 10)])"

declare str_nat.simps [simp del]

definition str_int :: "int \<Rightarrow> string" where
  \<comment> \<open>\<open>str(i)\<close> of a Python int\<close>
  "str_int i = (if i < 0 then CHR ''-'' # str_nat (nat (- i)) else str_nat (nat i))"

section \<open>services/utils.py\<close>

subsection \<open>\<open>parse_year_range\<close>\<close>

text \<open>
  \<open>re.search\<close> tries the pattern at every position from the left and returns the
  first position where it matches; at one position the greedy \<open>\d{2,4}\<close> is tried with
  4, then 3, then 2 digits. \<open>\b\<close> holds between two positions of which exactly one is a
  word character (the ends of the text count as non-word).
\<close>

definition word_opt :: "char option \<Rightarrow> bool" where
  "word_opt p = (case p of None \<Rightarrow> False | Some c \<Rightarrow> is_word c)"

definition boundary :: "char option \<Rightarrow> string \<Rightarrow> bool" where
  \<comment> \<open>\<open>\b\<close> with the character before the position and the text after it\<close>
  "boundary p s = (word_opt p \<noteq> (case s of [] \<Rightarrow> False | c # _ \<Rightarrow> is_word c))"

definition match_s :: "string \<Rightarrow> bool" where
  \<comment> \<open>\<open>s\b\<close> at the start of the text\<close>
  "match_s r = (case r of [] \<Rightarrow> False | c # r' \<Rightarrow> c = CHR ''s'' \<and> boundary (Some c) r')"

definition match_apos_s :: "string \<Rightarrow> bool" where
  \<comment> \<open>\<open>\'?s\b\<close>\<close>
  "match_apos_s r = ((case r of [] \<Rightarrow> False | c # r' \<Rightarrow> c = CHR 0x27 \<and> match_s r') \<or> match_s r)"

definition match_sp_apos_s :: "string \<Rightarrow> bool" where
  \<comment> \<open>\<open>\s?\'?s\b\<close>\<close>
  "match_sp_apos_s r =
     ((case r of [] \<Rightarrow> False | c # r' \<Rightarrow> is_space c \<and> match_apos_s r') \<or> match_apos_s r)"

definition digits_at :: "nat \<Rightarrow> string \<Rightarrow> bool" where
  "digits_at n s = (n \<le> length s \<and> list_all is_digit (take n s))"

definition decade_at :: "string \<Rightarrow> string option" where
  \<comment> \<open>\<open>(\d{2,4})\s?\'?s\b\<close> at the start of the text: group 1\<close>
  "decade_at s =
     (if digits_at 4 s \<and> match_sp_apos_s (drop 4 s) then Some (take 4 s)
      else if digits_at 3 s \<and> match_sp_apos_s (drop 3 s) then Some (take 3 s)
      else if digits_at 2 s \<and> match_sp_apos_s (drop 2 s) then Some (take 2 s)
      else None)"

fun search_at_boundary :: "(string \<Rightarrow> string option) \<Rightarrow> char option \<Rightarrow> string \<Rightarrow> string option" where
  \<comment> \<open>\<open>re.search\<close> of a pattern that starts with \<open>\b\<close>: the rest of the pattern, the
      character before the position, the text from the position on\<close>
  "search_at_boundary pat p [] = None"
| "search_at_boundary pat p (c # cs) =
     (if boundary p (c # cs) then
        (case pat (c # cs) of
           Some g \<Rightarrow> Some g
         | None \<Rightarrow> search_at_boundary pat (Some c) cs)
      else search_at_boundary pat (Some c) cs)"

definition decade_search :: "string \<Rightarrow> string option" where
  \<comment> \<open>\<open>re.search(r'\b(\d{2,4})\s?\'?s\b', text)\<close>: group 1 of the leftmost match\<close>
  "decade_search text = search_at_boundary decade_at None text"

definition year_at :: "string \<Rightarrow> string option" where
  \<comment> \<open>\<open>(19\d{2}|20\d{2})\b\<close> at the start of the text: group 1\<close>
  "year_at s =
     (if (prefix ''19'' s \<or> prefix ''20'' s) \<and> digits_at 4 s
         \<and> boundary (Some (s ! 3)) (drop 4 s)
      then Some (take 4 s) else None)"

definition year_search :: "string \<Rightarrow> string option" where
  \<comment> \<open>\<open>re.search(r'\b(19\d{2}|20\d{2})\b', text)\<close>: group 1 of the leftmost match\<close>
  "year_search text = search_at_boundary year_at None text"

definition parse_year_range :: "string \<Rightarrow> (int \<times> int) option" where
  "parse_year_range query_lower =
     (case decade_search query_lower of
        Some digits \<Rightarrow>
          (let start_year = (if length digits = 2 then int_of_digits (''19'' @ digits)
                             else int_of_digits digits)
           in Some (start_year, start_year + 9))
      | None \<Rightarrow>
          (case year_search query_lower of
             Some y \<Rightarrow> (let specific_year = int_of_digits y in Some (specific_year, specific_year))
           | None \<Rightarrow> None))"

subsection \<open>\<open>parse_genre\<close>\<close>

fun lcs :: "string \<Rightarrow> string \<Rightarrow> nat" where
  \<comment> \<open>length of a longest common subsequence\<close>
  "lcs [] ys = 0"
| "lcs xs [] = 0"
| "lcs (x # xs) (y # ys) =
     (if x = y then Suc (lcs xs ys) else max (lcs (x # xs) ys) (lcs xs (y # ys)))"

definition fuzz_ratio :: "string \<Rightarrow> string \<Rightarrow> rat" where
  \<comment> \<open>\<open>rapidfuzz.fuzz.ratio\<close>: the normalised Indel similarity on the scale 0 to 100,
      \<open>100 * (1 - (|a| + |b| - 2 * lcs a b) / (|a| + |b|))\<close>, and 100 on two empty strings\<close>
  "fuzz_ratio a b =
     (if length a + length b = 0 then 100
      else 100 * (1 - (of_nat (length a + length b - 2 * lcs a b)) / of_nat (length a + length b)))"

definition genres :: "string list" where
  "genres = [''action'', ''adventure'', ''animation'', ''biography'', ''comedy'', ''crime'',
             ''documentary'', ''drama'', ''fantasy'', ''family'', ''history'', ''horror'',
             ''musical'', ''mystery'', ''romance'', ''sci-fi'', ''reality-tv'']"

definition exact_genre :: "string \<Rightarrow> string \<Rightarrow> bool" where
  \<comment> \<open>\<open>f" {genre} " in f" {query_lower} "\<close>\<close>
  "exact_genre query_lower genre = contains ('' '' @ genre @ '' '') ('' '' @ query_lower @ '' '')"

fun fuzzy_loop :: "string list \<Rightarrow> string option" where
  \<comment> \<open>the nested loop: tokens outside, the vocabulary inside, the first hit returns\<close>
  "fuzzy_loop [] = None"
| "fuzzy_loop (word # ws) =
     (case find (\<lambda>genre. fuzz_ratio genre word > 80) genres of
        Some genre \<Rightarrow> Some genre
      | None \<Rightarrow> fuzzy_loop ws)"

definition parse_genre :: "string \<Rightarrow> string option" where
  "parse_genre query_lower =
     (if contains ''scifi'' query_lower then Some ''sci-fi''
      else case find (exact_genre query_lower) genres of
             Some genre \<Rightarrow> Some genre
           | None \<Rightarrow> fuzzy_loop (split_ws query_lower))"

subsection \<open>\<open>clean_mashed_names\<close>\<close>

fun clean_mashed_names :: "string \<Rightarrow> string" where
  \<comment> \<open>\<open>re.sub(r'(?<=[a-z])(?=[A-Z])', ', ', text)\<close>\<close>
  "clean_mashed_names (a # b # cs) =
     (if is_lower a \<and> is_upper b then a # '', '' @ clean_mashed_names (b # cs)
      else a # clean_mashed_names (b # cs))"
| "clean_mashed_names cs = cs"

section \<open>Data model\<close>

text \<open>
  A float of the cached table is a finite value or NaN. How Python prints a finite float
  (\<open>str\<close>, and the format \<open>.2f\<close>) is floating-point formatting outside this
  development: the functions that print take both as parameters.
\<close>

datatype num = NaN | Fin rat

datatype cell = Missing | Num rat | Str string

record float_format =
  float_str :: "rat \<Rightarrow> string"
  float_2f :: "rat \<Rightarrow> string"

definition str_num :: "float_format \<Rightarrow> num \<Rightarrow> string" where
  "str_num ff x = (case x of NaN \<Rightarrow> ''nan'' | Fin r \<Rightarrow> float_str ff r)"

definition str_cell :: "float_format \<Rightarrow> cell \<Rightarrow> string" where
  "str_cell ff x = (case x of Missing \<Rightarrow> ''nan'' | Num r \<Rightarrow> float_str ff r | Str s \<Rightarrow> s)"

datatype error = ValueError | UnpicklingError

text \<open>
  A row of the table after the renaming and imputation of ingestion, in the schema of the
  input file. The imputed text columns are strings and the numeric columns are floats;
  \<open>metascore\<close> is not imputed and may hold a number, a string or nothing. The title,
  the identity of a record, is taken as present in every row.
\<close>

record movie_row =
  title :: string
  year :: num
  genre :: string
  director :: string
  overview :: string
  certificates :: string
  metascore :: cell
  rating :: num
  cast :: string
  poster :: "string option"
  duration :: num

record movie = movie_row +
  description :: string

text \<open>
  A document or chunk of the index: its text and its metadata dictionary, as the list of
  its items (the values the code reads from it are strings).
\<close>

record doc =
  page_content :: string
  metadata :: "(string \<times> string) list"

definition get_title :: "doc \<Rightarrow> string option" where
  \<comment> \<open>\<open>doc.metadata.get('title')\<close>\<close>
  "get_title d = map_of (metadata d) ''title''"

text \<open>
  The loaded index is used through \<open>similarity_search(query, k)\<close> alone. The embedding
  model and the nearest-neighbour search are the libraries': the index is the function
  they compute.
\<close>

type_synonym vectorstore = "string \<Rightarrow> nat \<Rightarrow> doc list"

definition nl :: string where
  "nl = [CHR 0x0A]"

definition apos :: string where
  "apos = [CHR 0x27]"

section \<open>services/agents.py\<close>

subsection \<open>\<open>search_movies\<close>\<close>

fun year_marker_search :: "string \<Rightarrow> string option" where
  \<comment> \<open>\<open>re.search(r'Year: (\d{4})', text)\<close>: group 1 of the leftmost match\<close>
  "year_marker_search [] = None"
| "year_marker_search (c # cs) =
     (if prefix ''Year: '' (c # cs) \<and> digits_at 4 (drop 6 (c # cs))
      then Some (take 4 (drop 6 (c # cs)))
      else year_marker_search cs)"

definition year_rejects :: "(int \<times> int) option \<Rightarrow> string \<Rightarrow> bool" where
  \<comment> \<open>the year check of the loop says \<open>continue\<close>\<close>
  "year_rejects year_range content =
     (case year_range of
        None \<Rightarrow> False
      | Some (lo, hi) \<Rightarrow>
          (case year_marker_search content of
             None \<Rightarrow> False
           | Some m \<Rightarrow> (let yr = int_of_digits m in \<not> (lo \<le> yr \<and> yr \<le> hi))))"

definition genre_rejects :: "string option \<Rightarrow> string \<Rightarrow> bool" where
  \<comment> \<open>\<open>genre_filter and genre_filter not in doc.page_content.lower()\<close>\<close>
  "genre_rejects genre_filter content =
     (case genre_filter of
        None \<Rightarrow> False
      | Some g \<Rightarrow> g \<noteq> [] \<and> \<not> contains g (lower content))"

definition search_title :: "doc \<Rightarrow> string" where
  \<comment> \<open>\<open>doc.metadata.get('title', 'Unknown')\<close>\<close>
  "search_title d = (case get_title d of None \<Rightarrow> ''Unknown'' | Some t \<Rightarrow> t)"

fun search_loop ::
  "(int \<times> int) option \<Rightarrow> string option \<Rightarrow> doc list \<Rightarrow> string set \<Rightarrow> doc list \<Rightarrow> doc list" where
  \<comment> \<open>the filtering loop, with its variables \<open>seen_titles\<close> and \<open>filtered\<close>; the
      loop also calls \<open>parse_year_range\<close> on the text and drops the result\<close>
  "search_loop year_range genre_filter [] seen_titles filtered = filtered"
| "search_loop year_range genre_filter (d # results) seen_titles filtered =
     (if search_title d \<in> seen_titles then
        search_loop year_range genre_filter results seen_titles filtered
      else if year_rejects year_range (page_content d) then
        search_loop year_range genre_filter results seen_titles filtered
      else if genre_rejects genre_filter (page_content d) then
        search_loop year_range genre_filter results seen_titles filtered
      else if length (filtered @ [d]) \<ge> 5 then filtered @ [d]
      else search_loop year_range genre_filter results
             (insert (search_title d) seen_titles) (filtered @ [d]))"

definition info_of :: "nat \<Rightarrow> string \<Rightarrow> string" where
  \<comment> \<open>\<open>' | '.join([line.split(': ')[1] for line in content.split('\n')[:n] if ': ' in line])\<close>\<close>
  "info_of n content =
     join '' | '' (map (\<lambda>line. split_on '': '' line ! 1)
                      (filter (contains '': '') (take n (split_on nl content))))"

fun format_found :: "nat \<Rightarrow> doc list \<Rightarrow> string" where
  \<comment> \<open>\<open>for i, doc in enumerate(filtered, i): output += f"{i}. {info}\n"\<close>\<close>
  "format_found i [] = []"
| "format_found i (d # ds) =
     str_nat i @ ''. '' @ info_of 4 (page_content d) @ nl @ format_found (Suc i) ds"

definition no_movies_found :: string where
  "no_movies_found = ''No movies found matching those specific criteria.''"

definition search_filtered :: "vectorstore \<Rightarrow> string \<Rightarrow> doc list" where
  \<comment> \<open>the list \<open>filtered\<close> when the loop is left\<close>
  "search_filtered vs query =
     (let query_lower = lower query;
          year_range = parse_year_range query_lower;
          genre_filter = parse_genre query_lower;
          results = vs query 30
      in search_loop year_range genre_filter results {} [])"

definition search_movies :: "vectorstore option \<Rightarrow> string \<Rightarrow> string" where
  "search_movies vectorstore query =
     (case vectorstore of
        None \<Rightarrow> ''Error: Database is initializing, please try again.''
      | Some vs \<Rightarrow>
          (let filtered = search_filtered vs query
           in if filtered = [] then no_movies_found
              else ''Here is what I found:'' @ nl @ nl @ format_found 1 filtered))"

subsection \<open>\<open>recommend_similar_movies\<close>\<close>

definition recommend_line :: "doc \<Rightarrow> string" where
  "recommend_line d = ''- '' @ info_of 3 (page_content d) @ nl"

fun recommend_loop ::
  "string option \<Rightarrow> doc list \<Rightarrow> string \<Rightarrow> string option set \<Rightarrow> nat \<Rightarrow> string" where
  \<comment> \<open>the loop over \<open>similar\<close>, with its variables \<open>output\<close>, \<open>seen\<close> and \<open>count\<close>\<close>
  "recommend_loop ref_title [] output seen count = output"
| "recommend_loop ref_title (d # similar) output seen count =
     (let title = get_title d in
      if title = ref_title \<or> title \<in> seen then
        recommend_loop ref_title similar output seen count
      else if count + 1 \<ge> 5 then output @ recommend_line d
      else recommend_loop ref_title similar (output @ recommend_line d)
             (insert title seen) (count + 1))"

definition str_title :: "string option \<Rightarrow> string" where
  \<comment> \<open>how an f-string prints \<open>metadata.get('title')\<close>\<close>
  "str_title t = (case t of None \<Rightarrow> ''None'' | Some s \<Rightarrow> s)"

definition not_found :: "string \<Rightarrow> string" where
  "not_found movie_title = ''I couldn'' @ apos @ ''t find '' @ apos @ movie_title @ apos @ ''.''"

definition recommend_similar_movies :: "vectorstore option \<Rightarrow> string \<Rightarrow> string" where
  "recommend_similar_movies vectorstore movie_title =
     (case vectorstore of
        None \<Rightarrow> ''Error: Database not loaded.''
      | Some vs \<Rightarrow>
          (case vs (''Title: '' @ movie_title) 1 of
             [] \<Rightarrow> not_found movie_title
           | ref # _ \<Rightarrow>
               (let ref_content = page_content ref;
                    similar = vs ref_content 10;
                    output = ''Movies similar to '' @ apos @ str_title (get_title ref)
                             @ apos @ '':'' @ nl @ nl
                in recommend_loop (get_title ref) similar output {} 0)))"

subsection \<open>\<open>get_movie_statistics\<close>\<close>

definition num_ge :: "num \<Rightarrow> rat \<Rightarrow> bool" where
  \<comment> \<open>\<open>x >= b\<close> on a float column: False on NaN\<close>
  "num_ge x b = (case x of NaN \<Rightarrow> False | Fin r \<Rightarrow> b \<le> r)"

definition num_le :: "num \<Rightarrow> rat \<Rightarrow> bool" where
  "num_le x b = (case x of NaN \<Rightarrow> False | Fin r \<Rightarrow> r \<le> b)"

definition py_int :: "rat \<Rightarrow> int" where
  \<comment> \<open>\<open>int(x)\<close> of a finite float: truncation towards zero\<close>
  "py_int r = (if 0 \<le> r then \<lfloor>r\<rfloor> else \<lceil>r\<rceil>)"

definition finite_values :: "num list \<Rightarrow> rat list" where
  "finite_values xs = [r. Fin r \<leftarrow> xs]"

definition mean :: "num list \<Rightarrow> num" where
  \<comment> \<open>\<open>Series.mean()\<close>: NaN are skipped, and the mean of no value is NaN\<close>
  "mean xs =
     (let vs = finite_values xs
      in if vs = [] then NaN else Fin (sum_list vs / of_nat (length vs)))"

definition stats_subset :: "movie list \<Rightarrow> string \<Rightarrow> movie list" where
  \<comment> \<open>\<open>subset\<close> after the two filters\<close>
  "stats_subset df query =
     (let query_lower = lower query;
          year_range = parse_year_range query_lower;
          genre_filter = parse_genre query_lower;
          subs = df;
          subs = (case genre_filter of
                      None \<Rightarrow> subs
                    | Some g \<Rightarrow> if g = [] then subs
                               else filter (\<lambda>m. contains (lower g) (lower (genre m))) subs);
          subs = (case year_range of
                      None \<Rightarrow> subs
                    | Some (lo, hi) \<Rightarrow>
                        filter (\<lambda>m. num_ge (year m) (of_int lo) \<and> num_le (year m) (of_int hi)) subs)
      in subs)"

definition nlargest5 :: "movie list \<Rightarrow> movie list" where
  \<comment> \<open>\<open>subset.nlargest(5, 'rating')\<close>: the rated rows by falling rating, equal ratings in
      the order of the table, then the rows without a rating\<close>
  "nlargest5 subs =
     take 5 (sort_key (\<lambda>m. case rating m of Fin r \<Rightarrow> - r | NaN \<Rightarrow> 0)
               (filter (\<lambda>m. rating m \<noteq> NaN) subs)
             @ filter (\<lambda>m. rating m = NaN) subs)"

fun top_lines :: "float_format \<Rightarrow> movie list \<Rightarrow> error + string" where
  \<comment> \<open>\<open>res += f"- {row['title']} ({int(row['year'])}): {row['rating']}\n"\<close>;
      \<open>int\<close> of NaN raises\<close>
  "top_lines ff [] = Inr []"
| "top_lines ff (m # ms) =
     (case year m of
        NaN \<Rightarrow> Inl ValueError
      | Fin y \<Rightarrow>
          (case top_lines ff ms of
             Inl e \<Rightarrow> Inl e
           | Inr rest \<Rightarrow>
               Inr (''- '' @ title m @ '' ('' @ str_int (py_int y) @ ''): ''
                    @ str_num ff (rating m) @ nl @ rest)))"

definition str_2f :: "float_format \<Rightarrow> num \<Rightarrow> string" where
  \<comment> \<open>\<open>f"{avg:.2f}"\<close>\<close>
  "str_2f ff x = (case x of NaN \<Rightarrow> ''nan'' | Fin r \<Rightarrow> float_2f ff r)"

definition get_movie_statistics :: "float_format \<Rightarrow> movie list option \<Rightarrow> string \<Rightarrow> error + string" where
  "get_movie_statistics ff df query =
     (case df of
        None \<Rightarrow> Inr ''Error: Data cache not loaded.''
      | Some table \<Rightarrow>
          (let query_lower = lower query;
               subs = stats_subset table query
           in if contains ''average'' query_lower then
                (let avg = mean (map rating subs)
                 in Inr (''Average rating: '' @ str_2f ff avg @ ''/10 (based on ''
                         @ str_nat (length subs) @ '' movies)''))
              else if list_ex (\<lambda>x. contains x query_lower) [''highest'', ''best'', ''top''] then
                (case top_lines ff (nlargest5 subs) of
                   Inl e \<Rightarrow> Inl e
                 | Inr lines \<Rightarrow> Inr (''Highest rated movies:'' @ nl @ lines))
              else Inr (''Found '' @ str_nat (length subs) @ '' movies matching your criteria.'')))"

subsection \<open>\<open>generate_movie_quiz\<close>\<close>

text \<open>
  The two decorations of the questions lie outside the code points below 256. They enter
  no parsing, and are kept as the bytes the source file has for them.
\<close>

definition clapper :: string where
  "clapper = [CHR 0xC3, CHR 0xB0, CHR 0xC5, CHR 0xB8, CHR 0xC5, CHR 0xBD, CHR 0xC2, CHR 0xAC]"

definition question_mark :: string where
  "question_mark = [CHR 0xC3, CHR 0xA2, CHR 0xE2, CHR 0x80, CHR 0x9C]"

definition quiz_pool :: "movie list \<Rightarrow> movie list" where
  \<comment> \<open>\<open>df[(df['rating'] >= 7.0) & (df['year'] >= 2000)]\<close>\<close>
  "quiz_pool df = filter (\<lambda>m. num_ge (rating m) 7 \<and> num_ge (year m) 2000) df"

definition not_enough_data :: string where
  "not_enough_data = ''Not enough data for a quiz.''"

definition quiz_response :: "movie \<Rightarrow> bool \<Rightarrow> string" where
  \<comment> \<open>the question about the sampled \<open>movie\<close>; the flag is what \<open>random.choice\<close> gave\<close>
  "quiz_response movie choice =
     (if choice then
        (let director = director movie;
             response = clapper @ '' **Director Challenge**'' @ nl @ question_mark
                        @ '' Who directed **'' @ apos @ title movie @ apos @ ''**?''
         in response @ nl @ nl @ ''||INTERNAL_ANSWER_KEY: '' @ director @ ''||'')
      else
        (let cast = hd (split_on '','' (clean_mashed_names (cast movie)));
             response = clapper @ '' **Actor Challenge**'' @ nl @ question_mark
                        @ '' Who starred in **'' @ apos @ title movie @ apos @ ''**?''
         in response @ nl @ nl @ ''||INTERNAL_ANSWER_KEY: '' @ cast @ ''||''))"

section \<open>The process state and the four tools\<close>

text \<open>
  The module keeps the cached table and the index handle in globals. The two random
  generators the quiz draws from (\<open>pool.sample(1)\<close>, \<open>random.choice\<close>) are state as
  well: each is the stream of the draws it will make. A draw for \<open>sample\<close> is reduced
  modulo the size of the pool to the position it selects.
\<close>

record app_state =
  df :: "movie list option"
  vectorstore :: "vectorstore option"
  np_random :: "nat stream"
  py_random :: "bool stream"

definition generate_movie_quiz :: "app_state \<Rightarrow> string \<Rightarrow> string \<times> app_state" where
  "generate_movie_quiz s query =
     (case df s of
        None \<Rightarrow> (''Error: Data not loaded.'', s)
      | Some table \<Rightarrow>
          (let pool = quiz_pool table
           in if length pool < 5 then (not_enough_data, s)
              else
                (let movie = pool ! (shd (np_random s) mod length pool);
                     choice = shd (py_random s)
                 in (quiz_response movie choice,
                     s\<lparr>np_random := stl (np_random s), py_random := stl (py_random s)\<rparr>))))"

section \<open>The tools as they run: objects, globals and effects\<close>

text \<open>
  A call of a tool runs in the Python process: the module's globals \<open>df\<close> and
  \<open>vectorstore\<close> refer to objects, pandas operations create new DataFrame objects, and
  the quiz draws from the two random generators. The process is modelled with a store of
  DataFrame objects by reference. Every pandas operation of the tools (\<open>copy\<close>, selection
  by a mask, \<open>nlargest\<close>, \<open>sample\<close>, the choice of columns) returns a new object and
  leaves the one it is applied to as it is; the store makes this explicit, so that what a
  call does to the cached table is a property of the operations it performs. The search of
  the index is the library's and reads the index.
\<close>

type_synonym ref = nat

record process =
  heap_frames :: "ref \<Rightarrow> movie list option"
  heap_next :: ref
  global_df :: "ref option"
  global_vectorstore :: "vectorstore option"
  numpy_random :: "nat stream"
  python_random :: "bool stream"

definition frame_rows :: "process \<Rightarrow> ref \<Rightarrow> movie list" where
  \<comment> \<open>the rows of the DataFrame a reference points to\<close>
  "frame_rows p r = (case heap_frames p r of None \<Rightarrow> [] | Some t \<Rightarrow> t)"

definition new_frame :: "movie list \<Rightarrow> process \<Rightarrow> ref \<times> process" where
  \<comment> \<open>a new DataFrame object\<close>
  "new_frame t p =
     (heap_next p, p\<lparr>heap_frames := (heap_frames p)(heap_next p \<mapsto> t), heap_next := Suc (heap_next p)\<rparr>)"

definition frame_copy :: "ref \<Rightarrow> process \<Rightarrow> ref \<times> process" where
  \<comment> \<open>\<open>frame.copy()\<close>\<close>
  "frame_copy r p = new_frame (frame_rows p r) p"

definition frame_select :: "(movie \<Rightarrow> bool) \<Rightarrow> ref \<Rightarrow> process \<Rightarrow> ref \<times> process" where
  \<comment> \<open>\<open>frame[mask]\<close>, the mask given as the test it makes on a row\<close>
  "frame_select keep r p = new_frame (filter keep (frame_rows p r)) p"

definition frame_nlargest5 :: "ref \<Rightarrow> process \<Rightarrow> ref \<times> process" where
  \<comment> \<open>\<open>frame.nlargest(5, 'rating')\<close>\<close>
  "frame_nlargest5 r p = new_frame (nlargest5 (frame_rows p r)) p"

definition frame_columns :: "ref \<Rightarrow> process \<Rightarrow> ref \<times> process" where
  \<comment> \<open>\<open>frame[['title', 'rating', 'year']]\<close>: a new object with the same rows; the rows
      keep all their fields here, and only these three are read afterwards\<close>
  "frame_columns r p = new_frame (frame_rows p r) p"

definition frame_sample :: "ref \<Rightarrow> process \<Rightarrow> ref \<times> process" where
  \<comment> \<open>\<open>frame.sample(1)\<close> on a frame with rows: one draw of the numpy generator\<close>
  "frame_sample r p =
     new_frame [frame_rows p r ! (shd (numpy_random p) mod length (frame_rows p r))]
       (p\<lparr>numpy_random := stl (numpy_random p)\<rparr>)"

definition random_choice :: "process \<Rightarrow> bool \<times> process" where
  \<comment> \<open>\<open>random.choice([True, False])\<close>: one draw of Python's generator\<close>
  "random_choice p = (shd (python_random p), p\<lparr>python_random := stl (python_random p)\<rparr>)"

definition similarity_search :: "vectorstore \<Rightarrow> string \<Rightarrow> nat \<Rightarrow> process \<Rightarrow> doc list \<times> process" where
  \<comment> \<open>\<open>index.similarity_search(query, k=k)\<close>\<close>
  "similarity_search index query k p = (index query k, p)"

definition call_search_movies :: "string \<Rightarrow> process \<Rightarrow> string \<times> process" where
  "call_search_movies query p =
     (case global_vectorstore p of
        None \<Rightarrow> (''Error: Database is initializing, please try again.'', p)
      | Some index \<Rightarrow>
          (let query_lower = lower query;
               year_range = parse_year_range query_lower;
               genre_filter = parse_genre query_lower;
               (results, p1) = similarity_search index query 30 p;
               filtered = search_loop year_range genre_filter results {} []
           in if filtered = [] then (no_movies_found, p1)
              else (''Here is what I found:'' @ nl @ nl @ format_found 1 filtered, p1)))"

definition call_recommend_similar_movies :: "string \<Rightarrow> process \<Rightarrow> string \<times> process" where
  "call_recommend_similar_movies movie_title p =
     (case global_vectorstore p of
        None \<Rightarrow> (''Error: Database not loaded.'', p)
      | Some index \<Rightarrow>
          (let (ref_results, p1) = similarity_search index (''Title: '' @ movie_title) 1 p
           in case ref_results of
                [] \<Rightarrow> (not_found movie_title, p1)
              | ref # _ \<Rightarrow>
                  (let ref_content = page_content ref;
                       (similar, p2) = similarity_search index ref_content 10 p1;
                       output = ''Movies similar to '' @ apos @ str_title (get_title ref)
                                @ apos @ '':'' @ nl @ nl
                   in (recommend_loop (get_title ref) similar output {} 0, p2))))"

definition call_get_movie_statistics ::
  "float_format \<Rightarrow> string \<Rightarrow> process \<Rightarrow> (error + string) \<times> process" where
  "call_get_movie_statistics ff query p =
     (case global_df p of
        None \<Rightarrow> (Inr ''Error: Data cache not loaded.'', p)
      | Some r \<Rightarrow>
          (let query_lower = lower query;
               year_range = parse_year_range query_lower;
               genre_filter = parse_genre query_lower;
               (subs, p1) = frame_copy r p;
               (subs, p2) = (case genre_filter of
                               None \<Rightarrow> (subs, p1)
                             | Some g \<Rightarrow>
                                 if g = [] then (subs, p1)
                                 else frame_select (\<lambda>m. contains (lower g) (lower (genre m))) subs p1);
               (subs, p3) = (case year_range of
                               None \<Rightarrow> (subs, p2)
                             | Some (lo, hi) \<Rightarrow>
                                 frame_select (\<lambda>m. num_ge (year m) (of_int lo)
                                                     \<and> num_le (year m) (of_int hi)) subs p2)
           in if contains ''average'' query_lower then
                (let avg = mean (map rating (frame_rows p3 subs))
                 in (Inr (''Average rating: '' @ str_2f ff avg @ ''/10 (based on ''
                          @ str_nat (length (frame_rows p3 subs)) @ '' movies)''), p3))
              else if list_ex (\<lambda>x. contains x query_lower) [''highest'', ''best'', ''top''] then
                (let (largest, p4) = frame_nlargest5 subs p3;
                     (top, p5) = frame_columns largest p4
                 in case top_lines ff (frame_rows p5 top) of
                      Inl e \<Rightarrow> (Inl e, p5)
                    | Inr lines \<Rightarrow> (Inr (''Highest rated movies:'' @ nl @ lines), p5))
              else (Inr (''Found '' @ str_nat (length (frame_rows p3 subs))
                         @ '' movies matching your criteria.''), p3)))"

definition call_generate_movie_quiz :: "string \<Rightarrow> process \<Rightarrow> string \<times> process" where
  "call_generate_movie_quiz query p =
     (case global_df p of
        None \<Rightarrow> (''Error: Data not loaded.'', p)
      | Some r \<Rightarrow>
          (let (pool, p1) = frame_select (\<lambda>m. num_ge (rating m) 7 \<and> num_ge (year m) 2000) r p
           in if length (frame_rows p1 pool) < 5 then (not_enough_data, p1)
              else
                (let (one, p2) = frame_sample pool p1;
                     movie = frame_rows p2 one ! 0;
                     (choice, p3) = random_choice p2
                 in (quiz_response movie choice, p3))))"

datatype tool = SearchMovies | RecommendSimilarMovies | GetMovieStatistics | GenerateMovieQuiz

definition all_tools :: "tool list" where
  "all_tools = [SearchMovies, RecommendSimilarMovies, GetMovieStatistics, GenerateMovieQuiz]"

fun invoke :: "float_format \<Rightarrow> tool \<Rightarrow> string \<Rightarrow> process \<Rightarrow> (error + string) \<times> process" where
  \<comment> \<open>one call of a tool: its answer (or the exception it raises) and the process after it\<close>
  "invoke ff SearchMovies query p =
     (case call_search_movies query p of (answer, p') \<Rightarrow> (Inr answer, p'))"
| "invoke ff RecommendSimilarMovies query p =
     (case call_recommend_similar_movies query p of (answer, p') \<Rightarrow> (Inr answer, p'))"
| "invoke ff GetMovieStatistics query p = call_get_movie_statistics ff query p"
| "invoke ff GenerateMovieQuiz query p =
     (case call_generate_movie_quiz query p of (answer, p') \<Rightarrow> (Inr answer, p'))"

definition cached_table :: "process \<Rightarrow> movie list option" where
  \<comment> \<open>the rows of the table the global \<open>df\<close> refers to\<close>
  "cached_table p = map_option (frame_rows p) (global_df p)"

definition state_of :: "process \<Rightarrow> app_state" where
  \<comment> \<open>what the tools read of a process: table, index and generators\<close>
  "state_of p =
     \<lparr>df = cached_table p, vectorstore = global_vectorstore p,
      np_random = numpy_random p, py_random = python_random p\<rparr>"

definition well_formed :: "process \<Rightarrow> bool" where
  \<comment> \<open>the cached table is an object of the store, and new objects get unused references\<close>
  "well_formed p = (\<forall>r. global_df p = Some r \<longrightarrow> r < heap_next p)"

definition keeps_objects :: "process \<Rightarrow> process \<Rightarrow> bool" where
  \<comment> \<open>every object of \<open>p\<close> is in \<open>p'\<close> with the same rows, and the globals refer to the same
      objects\<close>
  "keeps_objects p p' =
     ((\<forall>r < heap_next p. heap_frames p' r = heap_frames p r)
      \<and> heap_next p \<le> heap_next p'
      \<and> global_df p' = global_df p
      \<and> global_vectorstore p' = global_vectorstore p)"

section \<open>services/ingest.py\<close>

subsection \<open>\<open>make_description\<close>\<close>

definition int_or_unknown :: "num \<Rightarrow> string" where
  \<comment> \<open>\<open>try: v = int(x)\<close>, \<open>except: v = "Unknown"\<close>, then printed in the f-string\<close>
  "int_or_unknown x = (case x of NaN \<Rightarrow> ''Unknown'' | Fin r \<Rightarrow> str_int (py_int r))"

definition metascore_known :: "cell \<Rightarrow> bool" where
  \<comment> \<open>\<open>pd.notna(row['metascore']) and row['metascore'] != 'Unknown'\<close>\<close>
  "metascore_known x = (x \<noteq> Missing \<and> x \<noteq> Str ''Unknown'')"

definition make_description :: "float_format \<Rightarrow> 'a movie_row_scheme \<Rightarrow> string" where
  "make_description ff row =
     (let year = int_or_unknown (year row);
          duration = int_or_unknown (duration row);
          desc = ''Title: '' @ title row @ nl
                 @ ''Year: '' @ year @ nl
                 @ ''Genre: '' @ genre row @ nl
                 @ ''Rating: '' @ str_num ff (rating row) @ ''/10'' @ nl
                 @ ''Director: '' @ director row @ nl
                 @ ''Cast: '' @ cast row @ nl
                 @ ''Duration: '' @ duration @ '' minutes'' @ nl
                 @ ''Certificate: '' @ certificates row
      in if metascore_known (metascore row)
         then desc @ nl @ ''MetaScore: '' @ str_cell ff (metascore row) @ ''/100''
         else desc)"

subsection \<open>\<open>ingest_movies\<close>\<close>

text \<open>
  A row as \<open>pd.read_csv\<close> delivers it, with the columns of the input file: a text cell
  may be missing, a numeric cell may be NaN.
\<close>

record csv_row =
  Title :: string
  Year :: num
  Genre :: "string option"
  Director :: "string option"
  Description :: "string option"
  Certificates :: "string option"
  MetaScore :: cell
  IMDb_Rating :: num
  Star_Cast :: "string option"
  Poster_src :: "string option"
  Duration_minutes :: num

definition median :: "num list \<Rightarrow> num" where
  \<comment> \<open>\<open>Series.median()\<close>: NaN are skipped, and the median of no value is NaN\<close>
  "median xs =
     (let vs = sort (finite_values xs); n = length vs
      in if n = 0 then NaN
         else if odd n then Fin (vs ! (n div 2))
         else Fin ((vs ! (n div 2 - 1) + vs ! (n div 2)) / 2))"

definition fillna_text :: "string option \<Rightarrow> string" where
  \<comment> \<open>\<open>fillna('Unknown')\<close>\<close>
  "fillna_text t = (case t of None \<Rightarrow> ''Unknown'' | Some s \<Rightarrow> s)"

definition fillna_num :: "num \<Rightarrow> num \<Rightarrow> num" where
  "fillna_num fill x = (case x of NaN \<Rightarrow> fill | Fin r \<Rightarrow> Fin r)"

definition clean_row :: "num \<Rightarrow> num \<Rightarrow> csv_row \<Rightarrow> movie_row" where
  \<comment> \<open>the renaming of the columns and the imputation, given the two medians\<close>
  "clean_row year_median duration_median r =
     \<lparr>title = Title r,
      year = fillna_num year_median (Year r),
      genre = fillna_text (Genre r),
      director = fillna_text (Director r),
      overview = fillna_text (Description r),
      certificates = fillna_text (Certificates r),
      metascore = MetaScore r,
      rating = IMDb_Rating r,
      cast = fillna_text (Star_Cast r),
      poster = Poster_src r,
      duration = fillna_num duration_median (Duration_minutes r)\<rparr>"

definition process_csv :: "float_format \<Rightarrow> csv_row list \<Rightarrow> movie list" where
  \<comment> \<open>steps 1 to 3 of the processing: rename, impute, describe\<close>
  "process_csv ff rows =
     (let year_median = median (map Year rows);
          duration_median = median (map Duration_minutes rows);
          cleaned = map (clean_row year_median duration_median) rows
      in map (\<lambda>row. movie_row.extend row \<lparr>description = make_description ff row\<rparr>) cleaned)"

text \<open>
  The three artifacts on disk. The input file is what \<open>pd.read_csv\<close> makes of it
  (\<open>None\<close>: it raises). The cache is absent, or a pickle that loads to a table, or one
  that does not load. The index directory is absent or holds the chunks that were indexed;
  the splitting of documents into chunks is the library's and a parameter of ingestion.
  What the function prints is left out.
\<close>

datatype pickle = Unreadable | Pickled "movie list"

record disk =
  data_file :: "csv_row list option"
  cache_file :: "pickle option"
  index_dir :: "doc list option"

datatype action = ReadPickle | ReadCsv | ToPickle | CreateVectorDb

definition document_of :: "movie \<Rightarrow> doc" where
  \<comment> \<open>\<open>Document(page_content=row['description'], metadata={'title': row['title']})\<close>\<close>
  "document_of row = \<lparr>page_content = description row, metadata = [(''title'', title row)]\<rparr>"

definition create_vector_db :: "(doc list \<Rightarrow> doc list) \<Rightarrow> doc list \<Rightarrow> disk \<Rightarrow> disk" where
  \<comment> \<open>chunk the documents, index the chunks, save the index\<close>
  "create_vector_db split_documents documents d = d\<lparr>index_dir := Some (split_documents documents)\<rparr>"

definition handoff ::
  "(doc list \<Rightarrow> doc list) \<Rightarrow> movie list \<Rightarrow> disk \<Rightarrow> action list \<Rightarrow> (error + unit) \<times> disk \<times> action list" where
  \<comment> \<open>phase 2: nothing to do when the index exists, else build it from the table\<close>
  "handoff split_documents table d done =
     (if index_dir d \<noteq> None then (Inr (), d, done)
      else (Inr (), create_vector_db split_documents (map document_of table) d,
            done @ [CreateVectorDb]))"

definition ingest_movies ::
  "float_format \<Rightarrow> (doc list \<Rightarrow> doc list) \<Rightarrow> disk \<Rightarrow> (error + unit) \<times> disk \<times> action list" where
  \<comment> \<open>the result (or the exception that leaves the function), the disk afterwards, and
      what was read, computed and written, in order\<close>
  "ingest_movies ff split_documents d =
     (case cache_file d of
        Some Unreadable \<Rightarrow> (Inl UnpicklingError, d, [ReadPickle])
      | Some (Pickled table) \<Rightarrow> handoff split_documents table d [ReadPickle]
      | None \<Rightarrow>
          (case data_file d of
             None \<Rightarrow> (Inr (), d, [ReadCsv])
           | Some rows \<Rightarrow>
               (let table = process_csv ff rows;
                    d' = d\<lparr>cache_file := Some (Pickled table)\<rparr>
                in handoff split_documents table d' [ReadCsv, ToPickle])))"

section \<open>Notions the properties are stated with\<close>

definition before :: "char option \<Rightarrow> string \<Rightarrow> char option" where
  \<comment> \<open>the character before a position: the last of the text before it, if any\<close>
  "before p pre = (if pre = [] then p else Some (last pre))"

definition word_start :: "string \<Rightarrow> bool" where
  \<comment> \<open>the text before a position does not end in a word character\<close>
  "word_start pre = (pre = [] \<or> \<not> is_word (last pre))"

definition word_end :: "string \<Rightarrow> bool" where
  \<comment> \<open>the text after a position does not start with a word character\<close>
  "word_end post = (post = [] \<or> \<not> is_word (hd post))"

definition gap :: "string \<Rightarrow> bool" where
  \<comment> \<open>what may stand between the digits and the \<open>s\<close> of a decade: at most one
      whitespace character, then at most one apostrophe\<close>
  "gap mid = (\<exists>sp ap. mid = sp @ ap \<and> (sp = [] \<or> (\<exists>c. is_space c \<and> sp = [c]))
                       \<and> (ap = [] \<or> ap = [CHR 0x27]))"

definition has_decade_token :: "string \<Rightarrow> bool" where
  \<comment> \<open>the text has a decade token: 2 to 4 digits that start a word, the gap, and an
      \<open>s\<close> that ends a word\<close>
  "has_decade_token q =
     (\<exists>pre ds mid post. q = pre @ ds @ mid @ ''s'' @ post \<and> word_start pre
        \<and> 2 \<le> length ds \<and> length ds \<le> 4 \<and> list_all is_digit ds \<and> gap mid \<and> word_end post)"

definition has_year_token :: "string \<Rightarrow> bool" where
  \<comment> \<open>the text has a year as a word of its own: four digits that start with 19 or 20\<close>
  "has_year_token q =
     (\<exists>pre y post. q = pre @ y @ post \<and> word_start pre \<and> length y = 4 \<and> list_all is_digit y
        \<and> (prefix ''19'' y \<or> prefix ''20'' y) \<and> word_end post)"

definition decade_start :: "string \<Rightarrow> int" where
  \<comment> \<open>the first year of the decade a token names: two digits belong to the 1900s\<close>
  "decade_start ds = (if length ds = 2 then 1900 + int_of_digits ds else int_of_digits ds)"

definition decade_token_here :: "string \<Rightarrow> string \<Rightarrow> bool" where
  \<comment> \<open>the text starts with a decade token whose digits are \<open>ds\<close>\<close>
  "decade_token_here ds rest =
     (\<exists>mid post. rest = ds @ mid @ ''s'' @ post \<and> 2 \<le> length ds \<and> length ds \<le> 4
        \<and> list_all is_digit ds \<and> gap mid \<and> word_end post)"

definition leftmost_decade_token :: "string \<Rightarrow> string \<Rightarrow> bool" where
  \<comment> \<open>\<open>ds\<close> are the digits of the leftmost decade token of the text: a token starts at
      a position where a word starts, and no token starts further left\<close>
  "leftmost_decade_token q ds =
     (\<exists>pre rest. q = pre @ rest \<and> word_start pre \<and> decade_token_here ds rest
        \<and> (\<forall>pre' rest' ds'. q = pre' @ rest' \<and> length pre' < length pre
              \<longrightarrow> \<not> (word_start pre' \<and> decade_token_here ds' rest')))"

definition year_here :: "string \<Rightarrow> string \<Rightarrow> bool" where
  \<comment> \<open>the text starts with the year \<open>y\<close>: four digits that start with 19 or 20 and
      end a word\<close>
  "year_here y rest =
     (\<exists>post. rest = y @ post \<and> length y = 4 \<and> list_all is_digit y
        \<and> (prefix ''19'' y \<or> prefix ''20'' y) \<and> word_end post)"

definition leftmost_year_token :: "string \<Rightarrow> string \<Rightarrow> bool" where
  \<comment> \<open>\<open>y\<close> is the leftmost year that is a word of its own\<close>
  "leftmost_year_token q y =
     (\<exists>pre rest. q = pre @ rest \<and> word_start pre \<and> year_here y rest
        \<and> (\<forall>pre' rest' y'. q = pre' @ rest' \<and> length pre' < length pre
              \<longrightarrow> \<not> (word_start pre' \<and> year_here y' rest')))"

definition fuzzy_hit :: "string \<Rightarrow> string \<Rightarrow> bool" where
  \<comment> \<open>the test of the inner loop of \<open>parse_genre\<close>, for a token and a genre\<close>
  "fuzzy_hit word g = (fuzz_ratio g word > 80)"

definition first_fuzzy_genre_of_vocabulary :: "string \<Rightarrow> string option" where
  \<comment> \<open>in the words of the specification: the first genre whose ratio with some token
      of the input exceeds 80\<close>
  "first_fuzzy_genre_of_vocabulary query_lower =
     find (\<lambda>g. list_ex (\<lambda>word. fuzz_ratio g word > 80) (split_ws query_lower)) genres"

definition whole_word_in :: "string \<Rightarrow> string \<Rightarrow> bool" where
  \<comment> \<open>in the words of the specification: the word occurs in the text as a whole word, that
      is at a position where no word character stands before it and none after it\<close>
  "whole_word_in w text =
     list_ex (\<lambda>i. take (length w) (drop i text) = w \<and> word_start (take i text)
                   \<and> word_end (drop (i + length w) text))
       [0..<Suc (length text)]"

definition satisfies_year_filter :: "(int \<times> int) option \<Rightarrow> doc \<Rightarrow> bool" where
  \<comment> \<open>in the words of the specification: the parsed range, when there is one, matched
      against the marker \<open>Year: NNNN\<close> of the text\<close>
  "satisfies_year_filter year_range d =
     (case year_range of
        None \<Rightarrow> True
      | Some (lo, hi) \<Rightarrow>
          (case year_marker_search (page_content d) of
             None \<Rightarrow> False
           | Some m \<Rightarrow> lo \<le> int_of_digits m \<and> int_of_digits m \<le> hi))"

definition passes :: "(int \<times> int) option \<Rightarrow> string option \<Rightarrow> doc \<Rightarrow> bool" where
  \<comment> \<open>a candidate gets through both checks of the search loop\<close>
  "passes year_range genre_filter d =
     (\<not> year_rejects year_range (page_content d) \<and> \<not> genre_rejects genre_filter (page_content d))"

fun first_per_title :: "string set \<Rightarrow> doc list \<Rightarrow> doc list" where
  \<comment> \<open>deduplication by title: the first document of every title not seen yet, in order\<close>
  "first_per_title seen [] = []"
| "first_per_title seen (d # ds) =
     (if search_title d \<in> seen then first_per_title seen ds
      else d # first_per_title (insert (search_title d) seen) ds)"

definition has_year_marker :: "string \<Rightarrow> bool" where
  \<comment> \<open>the text bears a marker \<open>Year: NNNN\<close>\<close>
  "has_year_marker content =
     (\<exists>pre ds post. content = pre @ ''Year: '' @ ds @ post \<and> length ds = 4 \<and> list_all is_digit ds)"



definition field_lines :: "float_format \<Rightarrow> 'a movie_row_scheme \<Rightarrow> string list" where
  \<comment> \<open>the eight labelled fields of a description, in their order\<close>
  "field_lines ff row =
     [''Title: '' @ title row,
      ''Year: '' @ int_or_unknown (year row),
      ''Genre: '' @ genre row,
      ''Rating: '' @ str_num ff (rating row) @ ''/10'',
      ''Director: '' @ director row,
      ''Cast: '' @ cast row,
      ''Duration: '' @ int_or_unknown (duration row) @ '' minutes'',
      ''Certificate: '' @ certificates row]"

definition metascore_line :: "float_format \<Rightarrow> 'a movie_row_scheme \<Rightarrow> string" where
  "metascore_line ff row = ''MetaScore: '' @ str_cell ff (metascore row) @ ''/100''"

definition one_line :: "string \<Rightarrow> bool" where
  \<comment> \<open>the text has no line break\<close>
  "one_line s = (CHR 0x0A \<notin> set s)"

definition one_line_fields :: "float_format \<Rightarrow> 'a movie_row_scheme \<Rightarrow> bool" where
  "one_line_fields ff row =
     (one_line (title row) \<and> one_line (genre row) \<and> one_line (str_num ff (rating row))
      \<and> one_line (director row) \<and> one_line (cast row) \<and> one_line (certificates row)
      \<and> one_line (str_cell ff (metascore row)))"





subsection \<open>A small index to run the tools on\<close>

definition demo_docs :: "doc list" where
  "demo_docs =
    [\<lparr>page_content = ''Title: Heat'' @ nl @ ''Year: 1995'' @ nl @ ''Genre: Action, Crime'' @ nl
                      @ ''Rating: 8.3/10'',
      metadata = [(''title'', ''Heat'')]\<rparr>,
     \<lparr>page_content = ''Cast: Al Pacino'' @ nl @ ''Genre: Action, Crime'',
      metadata = [(''title'', ''Heat'')]\<rparr>,
     \<lparr>page_content = ''Title: Bad Boys II'' @ nl @ ''Year: 2003'' @ nl @ ''Genre: Action, Comedy'' @ nl
                      @ ''Rating: 6.6/10'',
      metadata = [(''title'', ''Bad Boys II'')]\<rparr>,
     \<lparr>page_content = ''Genre: Action, Thriller'' @ nl @ ''Director: Jan de Bont'',
      metadata = [(''title'', ''Speed'')]\<rparr>,
     \<lparr>page_content = ''Title: Titanic'' @ nl @ ''Year: 1997'' @ nl @ ''Genre: Drama, Romance'' @ nl
                      @ ''Rating: 7.9/10'',
      metadata = [(''title'', ''Titanic'')]\<rparr>]"

definition demo_store :: vectorstore where
  "demo_store query k = take k demo_docs"

definition sequel_main_chunk :: doc where
  "sequel_main_chunk =
     \<lparr>page_content = ''Title: Bad Boys II'' @ nl @ ''Year: 2003'' @ nl @ ''Genre: Action, Comedy'' @ nl
                      @ ''Rating: 6.6/10'',
      metadata = [(''title'', ''Bad Boys II'')]\<rparr>"

definition sequel_cast_chunk :: doc where
  \<comment> \<open>a later chunk of the same description, past the line of the year\<close>
  "sequel_cast_chunk =
     \<lparr>page_content = ''Director: Michael Bay'' @ nl @ ''Cast: Will Smith, Martin Lawrence'',
      metadata = [(''title'', ''Bad Boys II'')]\<rparr>"

definition sequel_store :: vectorstore where
  "sequel_store query k = take k [sequel_main_chunk, sequel_cast_chunk]"

definition markerless_chunk :: doc where
  "markerless_chunk =
     \<lparr>page_content = ''Genre: Action, Thriller'' @ nl @ ''Director: Jan de Bont'',
      metadata = [(''title'', ''Speed'')]\<rparr>"

definition markerless_store :: vectorstore where
  "markerless_store query k = take k (markerless_chunk # demo_docs)"

subsection \<open>A disk, a float format and a row to run ingestion on\<close>

definition demo_disk :: disk where
  "demo_disk = \<lparr>data_file = None,
                 cache_file = Some (Pickled []),
                 index_dir = Some demo_docs\<rparr>"

definition demo_format :: float_format where
  "demo_format =
     \<lparr>float_str = (\<lambda>r. str_int \<lfloor>r\<rfloor> @ ''.'' @ str_nat (nat \<lfloor>(r - of_int \<lfloor>r\<rfloor>) * 10\<rfloor>)),
      float_2f = (\<lambda>r. str_int \<lfloor>r\<rfloor> @ ''.'' @ str_nat (nat \<lfloor>(r - of_int \<lfloor>r\<rfloor>) * 10\<rfloor>)
                         @ str_nat (nat \<lfloor>(r - of_int \<lfloor>r\<rfloor>) * 100\<rfloor> mod 10))\<rparr>"

definition heat_row :: movie_row where
  "heat_row =
     \<lparr>title = ''Heat'', year = Fin 1995, genre = ''Action, Crime'', director = ''Michael Mann'',
      overview = ''A group of professional bank robbers.'', certificates = ''R'',
      metascore = Num 76, rating = Fin (83 / 10), cast = ''Al PacinoRobert De Niro'',
      poster = None, duration = Fin 170\<rparr>"

subsection \<open>A table and a state to run the tools on\<close>

definition mk_movie :: "string \<Rightarrow> rat \<Rightarrow> string \<Rightarrow> string \<Rightarrow> rat \<Rightarrow> string \<Rightarrow> movie" where
  "mk_movie t y g d r c =
     \<lparr>title = t, year = Fin y, genre = g, director = d, overview = ''Unknown'',
      certificates = ''PG-13'', metascore = Missing, rating = Fin r, cast = c,
      poster = None, duration = Fin 120, description = ''Title: '' @ t\<rparr>"

definition demo_table :: "movie list" where
  "demo_table =
     [mk_movie ''Inception'' 2010 ''Action, Sci-Fi'' ''Christopher Nolan'' (88 / 10) ''Leonardo DiCaprioJoseph Gordon-Levitt'',
      mk_movie ''Heat'' 1995 ''Action, Crime'' ''Michael Mann'' (83 / 10) ''Al PacinoRobert De Niro'',
      mk_movie ''Parasite'' 2019 ''Drama, Thriller'' ''Bong Joon Ho'' (85 / 10) ''Song Kang-hoLee Sun-kyun'',
      mk_movie ''Up'' 2009 ''Animation'' ''Pete Docter'' (83 / 10) ''Edward Asner'',
      mk_movie ''Gladiator'' 2000 ''Action, Drama'' ''Ridley Scott'' (85 / 10) ''Russell CroweJoaquin Phoenix'',
      mk_movie ''Cats'' 2019 ''Musical'' ''Tom Hooper'' (28 / 10) ''James Corden'',
      mk_movie ''Whiplash'' 2014 ''Drama, Music'' ''Damien Chazelle'' (85 / 10) ''Miles TellerJ.K. Simmons'']"

definition demo_state :: app_state where
  "demo_state = \<lparr>df = Some demo_table, vectorstore = Some demo_store,
                  np_random = 0 ## sconst 3, py_random = True ## sconst False\<rparr>"

definition demo_process :: process where
  \<comment> \<open>the process after start-up: the table is the one object of the store\<close>
  "demo_process =
     \<lparr>heap_frames = [0 \<mapsto> demo_table], heap_next = 1,
      global_df = Some 0, global_vectorstore = Some demo_store,
      numpy_random = 0 ## sconst 3, python_random = True ## sconst False\<rparr>"

definition drama_only :: "movie list" where
  "drama_only = [mk_movie ''Parasite'' 2019 ''Drama, Thriller'' ''Bong Joon Ho'' (85 / 10) ''Song Kang-ho'']"

section \<open>Splitting text\<close>

lemma split_acc_nonempty: "split_acc sep cur s \<noteq> []"
  by (induction sep cur s rule: split_acc.induct) auto

lemma split_acc_two:
  "sep \<noteq> [] \<Longrightarrow> sublist sep s \<Longrightarrow> 2 \<le> length (split_acc sep cur s)"
proof (induction sep cur s rule: split_acc.induct)
  case (1 sep cur)
  then show ?case by simp
next
  case (2 sep cur c cs)
  show ?case
  proof (cases "prefix sep (c # cs)")
    case True
    have "split_acc sep [] (drop (length sep) (c # cs)) \<noteq> []" by (rule split_acc_nonempty)
    then have "1 \<le> length (split_acc sep [] (drop (length sep) (c # cs)))"
      by (cases "split_acc sep [] (drop (length sep) (c # cs))") auto
    with True 2(3) show ?thesis by (simp del: prefix_Cons)
  next
    case False
    with 2(4) have "sublist sep cs" using 2(3) by (cases sep) (auto simp: sublist_Cons_right)
    with 2 False show ?thesis by (simp del: prefix_Cons)
  qed
qed

lemma split_on_has_second:
  "sep \<noteq> [] \<Longrightarrow> contains sep line \<Longrightarrow> 1 < length (split_on sep line)"
  using split_acc_two[of sep line "[]"] by (simp add: split_on_def contains_def)


lemma split_acc_no_sep: "c \<notin> set s \<Longrightarrow> split_acc [c] cur s = [cur @ s]"
  by (induction s arbitrary: cur) auto

lemma split_acc_at_sep:
  "c \<notin> set x \<Longrightarrow> split_acc [c] cur (x @ c # rest) = (cur @ x) # split_acc [c] [] rest"
  by (induction x arbitrary: cur) auto

lemma split_join_lines:
  "xs \<noteq> [] \<Longrightarrow> \<forall>x \<in> set xs. c \<notin> set x \<Longrightarrow> split_acc [c] [] (join [c] xs) = xs"
proof (induction "[c]" xs rule: join.induct)
  case 1
  then show ?case by simp
next
  case (2 x)
  then show ?case by (simp add: split_acc_no_sep)
next
  case (3 x y ys)
  then show ?case using split_acc_at_sep[of c x "[]" "join [c] (y # ys)"] by simp
qed

section \<open>The year range of a query\<close>

lemma before_Cons: "before p (c # pre) = before (Some c) pre"
  by (simp add: before_def)

lemma search_at_boundary_None_iff:
  "search_at_boundary pat p s = None \<longleftrightarrow>
     (\<forall>pre rest. s = pre @ rest \<and> rest \<noteq> [] \<longrightarrow> \<not> (boundary (before p pre) rest \<and> pat rest \<noteq> None))"
proof (induction s arbitrary: p)
  case Nil
  then show ?case by simp
next
  case (Cons c cs)
  have split: "(\<forall>pre rest. c # cs = pre @ rest \<and> rest \<noteq> [] \<longrightarrow> \<not> (boundary (before p pre) rest \<and> pat rest \<noteq> None))
      \<longleftrightarrow> \<not> (boundary p (c # cs) \<and> pat (c # cs) \<noteq> None)
          \<and> (\<forall>pre rest. cs = pre @ rest \<and> rest \<noteq> [] \<longrightarrow> \<not> (boundary (before (Some c) pre) rest \<and> pat rest \<noteq> None))"
    (is "?A \<longleftrightarrow> ?B \<and> ?C")
  proof
    assume a: ?A
    have b: ?B using a[rule_format, of "[]" "c # cs"] by (simp add: before_def)
    have c: ?C
    proof (intro allI impI)
      fix pre rest assume h: "cs = pre @ rest \<and> rest \<noteq> []"
      then have "c # cs = (c # pre) @ rest \<and> rest \<noteq> []" by simp
      from a[rule_format, OF this] show "\<not> (boundary (before (Some c) pre) rest \<and> pat rest \<noteq> None)"
        by (simp add: before_Cons)
    qed
    from b c show "?B \<and> ?C" by blast
  next
    assume bc: "?B \<and> ?C"
    show ?A
    proof (intro allI impI)
      fix pre rest assume h: "c # cs = pre @ rest \<and> rest \<noteq> []"
      show "\<not> (boundary (before p pre) rest \<and> pat rest \<noteq> None)"
      proof (cases pre)
        case Nil
        with h bc show ?thesis by (simp add: before_def)
      next
        case (Cons x pre')
        with h have "cs = pre' @ rest \<and> rest \<noteq> []" and "x = c" by auto
        with bc Cons show ?thesis by (metis before_Cons)
      qed
    qed
  qed
  show ?case unfolding split using Cons.IH[of "Some c"]
    by (auto split: option.splits)
qed

lemma search_skip:
  "(\<forall>k < length pre. pat (drop k (pre @ rest)) = None) \<Longrightarrow>
   search_at_boundary pat p (pre @ rest) = search_at_boundary pat (before p pre) rest"
proof (induction pre arbitrary: p)
  case Nil
  then show ?case by (simp add: before_def)
next
  case (Cons c pre)
  from Cons.prems have h0: "pat (c # pre @ rest) = None" by (metis append_Cons drop0 length_greater_0_conv list.discI)
  have "\<forall>k < length pre. pat (drop k (pre @ rest)) = None"
  proof (intro allI impI)
    fix k assume "k < length pre"
    then have "Suc k < length (c # pre)" by simp
    from Cons.prems[rule_format, OF this] show "pat (drop k (pre @ rest)) = None" by simp
  qed
  from Cons.IH[OF this, of "Some c"] h0 show ?case by (simp add: before_Cons)
qed

lemma search_found_after_skip:
  assumes "\<forall>k < length pre. pat (drop k (pre @ rest)) = None"
    and "boundary (before None pre) rest" and "pat rest = Some g" and "rest \<noteq> []"
  shows "search_at_boundary pat None (pre @ rest) = Some g"
proof -
  from assms(4) obtain c cs where "rest = c # cs" by (cases rest) auto
  with assms show ?thesis using search_skip[OF assms(1), of None] by simp
qed

lemma int_of_digits_acc_append:
  "int_of_digits_acc a (xs @ ys) = int_of_digits_acc (int_of_digits_acc a xs) ys"
  by (induction xs arbitrary: a) auto

lemma int_of_digits_acc_shift:
  "int_of_digits_acc a xs = a * 10 ^ length xs + int_of_digits_acc 0 xs"
proof (induction xs arbitrary: a)
  case Nil
  then show ?case by simp
next
  case (Cons c cs)
  have "int_of_digits_acc a (c # cs) = int_of_digits_acc (10 * a + (int (of_char c) - 48)) cs" by simp
  also have "\<dots> = (10 * a + (int (of_char c) - 48)) * 10 ^ length cs + int_of_digits_acc 0 cs"
    by (rule Cons.IH)
  also have "\<dots> = a * 10 ^ length (c # cs) + ((int (of_char c) - 48) * 10 ^ length cs + int_of_digits_acc 0 cs)"
    by (simp add: algebra_simps)
  also have "(int (of_char c) - 48) * 10 ^ length cs + int_of_digits_acc 0 cs = int_of_digits_acc 0 (c # cs)"
    using Cons.IH[of "int (of_char c) - 48"] by simp
  finally show ?case .
qed

lemma two_digit_decade: "length ds = 2 \<Longrightarrow> int_of_digits (''19'' @ ds) = 1900 + int_of_digits ds"
proof -
  assume l: "length ds = 2"
  have "int_of_digits (''19'' @ ds) = int_of_digits_acc (int_of_digits_acc 0 ''19'') ds"
    by (simp only: int_of_digits_def int_of_digits_acc_append)
  also have "int_of_digits_acc 0 ''19'' = 19" by simp
  also have "int_of_digits_acc 19 ds = 19 * 10 ^ length ds + int_of_digits_acc 0 ds"
    by (rule int_of_digits_acc_shift)
  finally show ?thesis using l by (simp add: int_of_digits_def)
qed

lemma digit_value: "is_digit c \<Longrightarrow> 0 \<le> int (of_char c) - 48 \<and> int (of_char c) - 48 \<le> 9"
  by (auto simp: is_digit_def)

lemma int_of_digits_bounds:
  "list_all is_digit ds \<Longrightarrow> 0 \<le> int_of_digits_acc 0 ds \<and> int_of_digits_acc 0 ds < 10 ^ length ds"
proof (induction ds rule: rev_induct)
  case Nil
  then show ?case by simp
next
  case (snoc c ds)
  then have d: "0 \<le> int (of_char c) - 48 \<and> int (of_char c) - 48 \<le> 9"
    and ih: "0 \<le> int_of_digits_acc 0 ds \<and> int_of_digits_acc 0 ds < 10 ^ length ds"
    using digit_value by auto
  have "int_of_digits_acc 0 (ds @ [c]) = 10 * int_of_digits_acc 0 ds + (int (of_char c) - 48)"
    by (simp add: int_of_digits_acc_append)
  with d ih show ?case by auto
qed

lemma year_at_range:
  assumes "year_at s = Some y"
  shows "1900 \<le> int_of_digits y \<and> int_of_digits y \<le> 2099"
proof -
  from assms have p: "prefix ''19'' s \<or> prefix ''20'' s" and d: "digits_at 4 s" and y: "y = take 4 s"
    by (auto simp: year_at_def split: if_splits)
  from p have "\<exists>h r. s = h @ r \<and> (h = ''19'' \<or> h = ''20'')"
    unfolding prefix_def by blast
  then obtain h r where s: "s = h @ r" and h: "h = ''19'' \<or> h = ''20''" by blast
  from h have lh: "length h = 2" by auto
  with s y have y2: "y = h @ take 2 r" by simp
  from d s lh have "length r \<ge> 2" and "list_all is_digit (take 2 r)"
    by (auto simp: digits_at_def)
  then have b: "0 \<le> int_of_digits_acc 0 (take 2 r) \<and> int_of_digits_acc 0 (take 2 r) < 10 ^ 2"
    using int_of_digits_bounds[of "take 2 r"] by simp
  have "int_of_digits y = int_of_digits_acc (int_of_digits_acc 0 h) (take 2 r)"
    by (simp only: y2 int_of_digits_def int_of_digits_acc_append)
  also have "\<dots> = int_of_digits_acc 0 h * 10 ^ 2 + int_of_digits_acc 0 (take 2 r)"
    using int_of_digits_acc_shift[of "int_of_digits_acc 0 h" "take 2 r"] \<open>length r \<ge> 2\<close> by simp
  finally show ?thesis using h b by auto
qed

lemma parse_year_range_examples:
  "parse_year_range ''90s movies'' = Some (1990, 1999)"
  "parse_year_range ''1920s'' = Some (1920, 1929)"
  "parse_year_range ''from 2015'' = Some (2015, 2015)"
  "parse_year_range ''timeless classics'' = None"
  by code_simp+


lemma is_word_s: "is_word (CHR ''s'')"
  by (simp add: is_word_def is_lower_def)

lemma is_word_digit: "is_digit c \<Longrightarrow> is_word c"
  by (simp add: is_word_def)

lemma boundary_after_word: "is_word c \<Longrightarrow> boundary (Some c) r = word_end r"
  by (cases r) (auto simp: boundary_def word_opt_def word_end_def)

lemma boundary_before_word:
  "rest \<noteq> [] \<Longrightarrow> is_word (hd rest) \<Longrightarrow> boundary (before None pre) rest = word_start pre"
  by (cases rest) (auto simp: boundary_def word_opt_def word_start_def before_def)

lemma match_s_iff: "match_s r \<longleftrightarrow> (\<exists>post. r = ''s'' @ post \<and> word_end post)"
  by (cases r) (auto simp: match_s_def boundary_after_word[OF is_word_s])

lemma match_apos_s_iff:
  "match_apos_s r \<longleftrightarrow>
     (\<exists>ap post. r = ap @ ''s'' @ post \<and> (ap = [] \<or> ap = [CHR 0x27]) \<and> word_end post)"
proof
  assume "match_apos_s r"
  then consider (a) c r' where "r = c # r'" "c = CHR 0x27" "match_s r'" | (b) "match_s r"
    by (auto simp: match_apos_s_def split: list.splits)
  then show "\<exists>ap post. r = ap @ ''s'' @ post \<and> (ap = [] \<or> ap = [CHR 0x27]) \<and> word_end post"
  proof cases
    case a
    from a(3) obtain post where "r' = ''s'' @ post" "word_end post" unfolding match_s_iff by blast
    with a(1,2) have "r = [CHR 0x27] @ ''s'' @ post" by simp
    with \<open>word_end post\<close> show ?thesis by blast
  next
    case b
    then obtain post where "r = [] @ ''s'' @ post" "word_end post" unfolding match_s_iff by auto
    then show ?thesis by blast
  qed
next
  assume "\<exists>ap post. r = ap @ ''s'' @ post \<and> (ap = [] \<or> ap = [CHR 0x27]) \<and> word_end post"
  then obtain ap post where r: "r = ap @ ''s'' @ post" and ap: "ap = [] \<or> ap = [CHR 0x27]"
    and e: "word_end post" by blast
  have m: "match_s (''s'' @ post)" unfolding match_s_iff using e by blast
  from ap show "match_apos_s r"
  proof
    assume "ap = []" with r m show ?thesis by (simp add: match_apos_s_def)
  next
    assume "ap = [CHR 0x27]" with r m show ?thesis by (simp add: match_apos_s_def)
  qed
qed

lemma gapI:
  "sp = [] \<or> (\<exists>c. is_space c \<and> sp = [c]) \<Longrightarrow> ap = [] \<or> ap = [CHR 0x27] \<Longrightarrow> gap (sp @ ap)"
  unfolding gap_def by blast

lemma match_sp_apos_s_iff:
  "match_sp_apos_s r \<longleftrightarrow> (\<exists>mid post. r = mid @ ''s'' @ post \<and> gap mid \<and> word_end post)"
proof
  assume "match_sp_apos_s r"
  then consider (a) c r' where "r = c # r'" "is_space c" "match_apos_s r'" | (b) "match_apos_s r"
    by (auto simp: match_sp_apos_s_def split: list.splits)
  then show "\<exists>mid post. r = mid @ ''s'' @ post \<and> gap mid \<and> word_end post"
  proof cases
    case a
    from a(3) obtain ap post where "r' = ap @ ''s'' @ post" "ap = [] \<or> ap = [CHR 0x27]" "word_end post"
      unfolding match_apos_s_iff by blast
    with a(1,2) have "r = ([c] @ ap) @ ''s'' @ post" by simp
    moreover have "gap ([c] @ ap)"
      using a(2) \<open>ap = [] \<or> ap = [CHR 0x27]\<close> by (intro gapI) blast+
    ultimately have "r = ([c] @ ap) @ ''s'' @ post" and "gap ([c] @ ap)" by blast+
    with \<open>word_end post\<close> show ?thesis by blast
  next
    case b
    then obtain ap post where "r = ap @ ''s'' @ post" "ap = [] \<or> ap = [CHR 0x27]" "word_end post"
      unfolding match_apos_s_iff by blast
    moreover from this have "gap ap" using gapI[of "[]" ap] by simp
    ultimately show ?thesis by blast
  qed
next
  assume "\<exists>mid post. r = mid @ ''s'' @ post \<and> gap mid \<and> word_end post"
  then obtain sp ap post where r: "r = (sp @ ap) @ ''s'' @ post"
    and sp: "sp = [] \<or> (\<exists>c. is_space c \<and> sp = [c])" and ap: "ap = [] \<or> ap = [CHR 0x27]"
    and e: "word_end post" unfolding gap_def by blast
  have m: "match_apos_s (ap @ ''s'' @ post)" unfolding match_apos_s_iff using ap e by blast
  from sp show "match_sp_apos_s r"
  proof
    assume "sp = []" with r m show ?thesis by (simp add: match_sp_apos_s_def)
  next
    assume "\<exists>c. is_space c \<and> sp = [c]"
    then obtain c where "is_space c" "sp = [c]" by blast
    with r m show ?thesis by (simp add: match_sp_apos_s_def)
  qed
qed

lemma digits_then_tail:
  "digits_at n s \<and> match_sp_apos_s (drop n s) \<longleftrightarrow>
     (\<exists>ds mid post. s = ds @ mid @ ''s'' @ post \<and> length ds = n \<and> list_all is_digit ds
                    \<and> gap mid \<and> word_end post)"
proof
  assume a: "digits_at n s \<and> match_sp_apos_s (drop n s)"
  then obtain mid post where t: "drop n s = mid @ ''s'' @ post" "gap mid" "word_end post"
    unfolding match_sp_apos_s_iff by blast
  from a have n: "n \<le> length s" "list_all is_digit (take n s)" by (auto simp: digits_at_def)
  have "s = take n s @ mid @ ''s'' @ post" using t(1) by (metis append_take_drop_id)
  moreover have "length (take n s) = n" using n by simp
  ultimately show "\<exists>ds mid post. s = ds @ mid @ ''s'' @ post \<and> length ds = n \<and> list_all is_digit ds
                    \<and> gap mid \<and> word_end post"
    using n(2) t(2,3) by blast
next
  assume "\<exists>ds mid post. s = ds @ mid @ ''s'' @ post \<and> length ds = n \<and> list_all is_digit ds
                    \<and> gap mid \<and> word_end post"
  then obtain ds mid post where s: "s = ds @ mid @ ''s'' @ post" and l: "length ds = n"
    and d: "list_all is_digit ds" and g: "gap mid" "word_end post" by blast
  from s l have "take n s = ds" "drop n s = mid @ ''s'' @ post" by auto
  with l d g s show "digits_at n s \<and> match_sp_apos_s (drop n s)"
    unfolding match_sp_apos_s_iff digits_at_def by auto
qed

lemma decade_at_iff:
  "decade_at rest \<noteq> None \<longleftrightarrow>
     (\<exists>ds mid post. rest = ds @ mid @ ''s'' @ post \<and> 2 \<le> length ds \<and> length ds \<le> 4
                    \<and> list_all is_digit ds \<and> gap mid \<and> word_end post)"
proof -
  have "decade_at rest \<noteq> None \<longleftrightarrow>
          (\<exists>n \<in> {2, 3, 4}. digits_at n rest \<and> match_sp_apos_s (drop n rest))"
    by (auto simp: decade_at_def)
  also have "\<dots> \<longleftrightarrow> (\<exists>n \<in> {2, 3, 4}. \<exists>ds mid post. rest = ds @ mid @ ''s'' @ post \<and> length ds = n
                    \<and> list_all is_digit ds \<and> gap mid \<and> word_end post)"
    by (simp only: digits_then_tail)
  also have "\<dots> \<longleftrightarrow> (\<exists>ds mid post. rest = ds @ mid @ ''s'' @ post \<and> 2 \<le> length ds \<and> length ds \<le> 4
                    \<and> list_all is_digit ds \<and> gap mid \<and> word_end post)"
  proof
    assume "\<exists>n \<in> {2, 3, 4}. \<exists>ds mid post. rest = ds @ mid @ ''s'' @ post \<and> length ds = n
                    \<and> list_all is_digit ds \<and> gap mid \<and> word_end post"
    then show "\<exists>ds mid post. rest = ds @ mid @ ''s'' @ post \<and> 2 \<le> length ds \<and> length ds \<le> 4
                    \<and> list_all is_digit ds \<and> gap mid \<and> word_end post"
      by fastforce
  next
    assume "\<exists>ds mid post. rest = ds @ mid @ ''s'' @ post \<and> 2 \<le> length ds \<and> length ds \<le> 4
                    \<and> list_all is_digit ds \<and> gap mid \<and> word_end post"
    then obtain ds mid post where h: "rest = ds @ mid @ ''s'' @ post" "2 \<le> length ds" "length ds \<le> 4"
        "list_all is_digit ds" "gap mid" "word_end post" by blast
    then have "length ds \<in> {2, 3, 4}" by auto
    with h show "\<exists>n \<in> {2, 3, 4}. \<exists>ds mid post. rest = ds @ mid @ ''s'' @ post \<and> length ds = n
                    \<and> list_all is_digit ds \<and> gap mid \<and> word_end post" by blast
  qed
  finally show ?thesis .
qed


lemma digit_not_tail: "is_digit d \<Longrightarrow> \<not> match_sp_apos_s (d # r)"
  by (auto simp: match_sp_apos_s_def match_apos_s_def match_s_def is_digit_def is_space_def)

lemma tail_not_digit:
  assumes "gap mid"
  shows "\<not> is_digit (hd (mid @ ''s'' @ post))"
proof -
  from assms obtain sp ap where m: "mid = sp @ ap"
    and sp: "sp = [] \<or> (\<exists>c. is_space c \<and> sp = [c])" and ap: "ap = [] \<or> ap = [CHR 0x27]"
    unfolding gap_def by blast
  have s: "\<not> is_digit (CHR ''s'')" and a: "\<not> is_digit (CHR 0x27)" by (simp_all add: is_digit_def)
  have w: "\<not> is_digit c" if "is_space c" for c using that by (auto simp: is_digit_def is_space_def)
  from sp ap show ?thesis unfolding m using s a w by auto
qed

lemma decade_at_token:
  assumes "2 \<le> length ds" "length ds \<le> 4" "list_all is_digit ds" "gap mid" "word_end post"
  shows "decade_at (ds @ mid @ ''s'' @ post) = Some ds"
proof -
  let ?t = "mid @ ''s'' @ post" and ?rest = "ds @ mid @ ''s'' @ post"
  have tne: "?t \<noteq> []" by simp
  have hd_t: "\<not> is_digit (hd ?t)" by (rule tail_not_digit[OF assms(4)])
  have here: "digits_at (length ds) ?rest \<and> match_sp_apos_s (drop (length ds) ?rest)"
    unfolding digits_then_tail using assms by blast
  have only: "n = length ds" if h: "digits_at n ?rest \<and> match_sp_apos_s (drop n ?rest)" for n
  proof (rule ccontr)
    assume "n \<noteq> length ds"
    then consider (more) "length ds < n" | (less) "n < length ds" by linarith
    then show False
    proof cases
      case more
      then have "take n ?rest = ds @ take (n - length ds) ?t" by simp
      moreover from more tne have "hd ?t \<in> set (take (n - length ds) ?t)"
        by (cases ?t; cases "n - length ds") auto
      ultimately have "\<not> list_all is_digit (take n ?rest)"
        using hd_t by (auto simp: list_all_iff)
      with h show False by (simp add: digits_at_def)
    next
      case less
      then obtain d r where dr: "drop n ds = d # r" by (cases "drop n ds") auto
      then have "d \<in> set ds" by (metis in_set_dropD list.set_intros(1))
      with assms(3) have "is_digit d" by (simp add: list_all_iff)
      moreover from less dr have "drop n ?rest = d # r @ ?t" by simp
      ultimately show False using h digit_not_tail by metis
    qed
  qed
  from assms(1,2) have "length ds = 2 \<or> length ds = 3 \<or> length ds = 4" by linarith
  then show ?thesis
  proof (elim disjE)
    assume l: "length ds = 2"
    with only[of 4] only[of 3] here show ?thesis by (auto simp: decade_at_def)
  next
    assume l: "length ds = 3"
    with only[of 4] here show ?thesis by (auto simp: decade_at_def)
  next
    assume l: "length ds = 4"
    with here show ?thesis by (auto simp: decade_at_def)
  qed
qed

lemma decade_at_needs_digit: "s \<noteq> [] \<Longrightarrow> \<not> is_digit (hd s) \<Longrightarrow> decade_at s = None"
  by (cases s) (auto simp: decade_at_def digits_at_def)

lemma decade_at_Nil: "decade_at [] = None"
  by (simp add: decade_at_def digits_at_def)

lemma decade_token_found:
  assumes "\<forall>c \<in> set pre. \<not> is_digit c" "word_start pre"
    and "2 \<le> length ds" "length ds \<le> 4" "list_all is_digit ds" "gap mid" "word_end post"
  shows "decade_search (pre @ ds @ mid @ ''s'' @ post) = Some ds"
proof -
  let ?rest = "ds @ mid @ ''s'' @ post"
  from assms(3) obtain d ds' where ds: "ds = d # ds'" by (cases ds) auto
  with assms(5) have dd: "is_digit d" by simp
  have skip: "\<forall>k < length pre. decade_at (drop k (pre @ ?rest)) = None"
  proof (intro allI impI)
    fix k assume k: "k < length pre"
    then have "drop k (pre @ ?rest) = (pre ! k) # drop (Suc k) pre @ ?rest"
      by (simp add: Cons_nth_drop_Suc)
    moreover have "\<not> is_digit (pre ! k)" using assms(1) k by simp
    ultimately show "decade_at (drop k (pre @ ?rest)) = None"
      using decade_at_needs_digit[of "drop k (pre @ ?rest)"] by simp
  qed
  have b: "boundary (before None pre) ?rest"
    using boundary_before_word[of ?rest pre] assms(2) ds is_word_digit[OF dd] by simp
  have m: "decade_at ?rest = Some ds" by (rule decade_at_token[OF assms(3-7)])
  have ne: "?rest \<noteq> []" using ds by simp
  from search_found_after_skip[OF skip b m ne] show ?thesis by (simp add: decade_search_def)
qed

lemma decade_search_None_iff: "decade_search q = None \<longleftrightarrow> \<not> has_decade_token q"
proof -
  have "has_decade_token q \<longleftrightarrow>
          (\<exists>pre rest. q = pre @ rest \<and> rest \<noteq> [] \<and> boundary (before None pre) rest \<and> decade_at rest \<noteq> None)"
  proof
    assume "has_decade_token q"
    then obtain pre ds mid post where q: "q = pre @ ds @ mid @ ''s'' @ post" and w: "word_start pre"
      and t: "2 \<le> length ds" "length ds \<le> 4" "list_all is_digit ds" "gap mid" "word_end post"
      unfolding has_decade_token_def by blast
    let ?rest = "ds @ mid @ ''s'' @ post"
    from t(1) obtain d ds' where ds: "ds = d # ds'" by (cases ds) auto
    with t(3) have "is_word (hd ?rest)" using is_word_digit by simp
    then have "boundary (before None pre) ?rest"
      using boundary_before_word[of ?rest pre] w ds by simp
    moreover have "decade_at ?rest \<noteq> None" using decade_at_token[OF t] by simp
    ultimately show "\<exists>pre rest. q = pre @ rest \<and> rest \<noteq> [] \<and> boundary (before None pre) rest \<and> decade_at rest \<noteq> None"
      using q ds by blast
  next
    assume "\<exists>pre rest. q = pre @ rest \<and> rest \<noteq> [] \<and> boundary (before None pre) rest \<and> decade_at rest \<noteq> None"
    then obtain pre rest where q: "q = pre @ rest" and ne: "rest \<noteq> []"
      and b: "boundary (before None pre) rest" and m: "decade_at rest \<noteq> None" by blast
    from m obtain ds mid post where r: "rest = ds @ mid @ ''s'' @ post"
      and t: "2 \<le> length ds" "length ds \<le> 4" "list_all is_digit ds" "gap mid" "word_end post"
      unfolding decade_at_iff by blast
    from t(1) obtain d ds' where ds: "ds = d # ds'" by (cases ds) auto
    with t(3) r have "is_word (hd rest)" using is_word_digit by simp
    with b ne have "word_start pre" using boundary_before_word[of rest pre] by simp
    with q r t show "has_decade_token q" unfolding has_decade_token_def by blast
  qed
  then show ?thesis
    unfolding decade_search_def search_at_boundary_None_iff by blast
qed


lemma year_at_iff:
  "year_at rest = Some y \<longleftrightarrow>
     (\<exists>post. rest = y @ post \<and> length y = 4 \<and> list_all is_digit y
             \<and> (prefix ''19'' y \<or> prefix ''20'' y) \<and> word_end post)"
proof
  assume a: "year_at rest = Some y"
  then have p: "prefix ''19'' rest \<or> prefix ''20'' rest" and d: "digits_at 4 rest"
    and b: "boundary (Some (rest ! 3)) (drop 4 rest)" and y: "y = take 4 rest"
    by (auto simp: year_at_def split: if_splits)
  from d have l: "4 \<le> length rest" and dy: "list_all is_digit y" using y by (auto simp: digits_at_def)
  from l y have ly: "length y = 4" by simp
  have r: "rest = y @ drop 4 rest" using y by simp
  from l y have "rest ! 3 = y ! 3" by simp
  with dy ly have "is_digit (rest ! 3)" by (simp add: list_all_length)
  with b have e: "word_end (drop 4 rest)" using boundary_after_word is_word_digit by blast
  from p y l have py: "prefix ''19'' y \<or> prefix ''20'' y"
    by (auto simp: prefix_def)
  from r ly dy py e show "\<exists>post. rest = y @ post \<and> length y = 4 \<and> list_all is_digit y
             \<and> (prefix ''19'' y \<or> prefix ''20'' y) \<and> word_end post" by blast
next
  assume "\<exists>post. rest = y @ post \<and> length y = 4 \<and> list_all is_digit y
             \<and> (prefix ''19'' y \<or> prefix ''20'' y) \<and> word_end post"
  then obtain post where r: "rest = y @ post" and ly: "length y = 4" and dy: "list_all is_digit y"
    and py: "prefix ''19'' y \<or> prefix ''20'' y" and e: "word_end post" by blast
  from r ly have t: "take 4 rest = y" "drop 4 rest = post" "rest ! 3 = y ! 3"
    by (auto simp: nth_append)
  from dy ly have "is_digit (y ! 3)" by (simp add: list_all_length)
  then have b: "boundary (Some (rest ! 3)) (drop 4 rest)"
    using t e boundary_after_word is_word_digit by simp
  from py r have p: "prefix ''19'' rest \<or> prefix ''20'' rest" by (auto simp: prefix_def)
  from r ly dy t have d: "digits_at 4 rest" by (simp add: digits_at_def)
  from p d b t show "year_at rest = Some y" by (simp add: year_at_def)
qed


lemma year_at_needs_digit: "s \<noteq> [] \<Longrightarrow> \<not> is_digit (hd s) \<Longrightarrow> year_at s = None"
  by (cases s) (auto simp: year_at_def digits_at_def)

lemma year_token_found:
  assumes "\<forall>c \<in> set pre. \<not> is_digit c" "word_start pre"
    and "length y = 4" "list_all is_digit y" "prefix ''19'' y \<or> prefix ''20'' y" "word_end post"
  shows "year_search (pre @ y @ post) = Some y"
proof -
  let ?rest = "y @ post"
  from assms(3) obtain d y' where y: "y = d # y'" by (cases y) auto
  with assms(4) have dd: "is_digit d" by simp
  have skip: "\<forall>k < length pre. year_at (drop k (pre @ ?rest)) = None"
  proof (intro allI impI)
    fix k assume k: "k < length pre"
    then have "drop k (pre @ ?rest) = (pre ! k) # drop (Suc k) pre @ ?rest"
      by (simp add: Cons_nth_drop_Suc)
    moreover have "\<not> is_digit (pre ! k)" using assms(1) k by simp
    ultimately show "year_at (drop k (pre @ ?rest)) = None"
      using year_at_needs_digit[of "drop k (pre @ ?rest)"] by simp
  qed
  have b: "boundary (before None pre) ?rest"
    using boundary_before_word[of ?rest pre] assms(2) y is_word_digit[OF dd] by simp
  have m: "year_at ?rest = Some y" unfolding year_at_iff using assms(3-6) by blast
  have ne: "?rest \<noteq> []" using y by simp
  from search_found_after_skip[OF skip b m ne] show ?thesis by (simp add: year_search_def)
qed

lemma year_search_None_iff: "year_search q = None \<longleftrightarrow> \<not> has_year_token q"
proof -
  have "has_year_token q \<longleftrightarrow>
          (\<exists>pre rest. q = pre @ rest \<and> rest \<noteq> [] \<and> boundary (before None pre) rest \<and> year_at rest \<noteq> None)"
  proof
    assume "has_year_token q"
    then obtain pre y post where q: "q = pre @ y @ post" and w: "word_start pre"
      and t: "length y = 4" "list_all is_digit y" "prefix ''19'' y \<or> prefix ''20'' y" "word_end post"
      unfolding has_year_token_def by blast
    let ?rest = "y @ post"
    from t(1) obtain d y' where y: "y = d # y'" by (cases y) auto
    with t(2) have "is_word (hd ?rest)" using is_word_digit by simp
    then have "boundary (before None pre) ?rest"
      using boundary_before_word[of ?rest pre] w y by simp
    moreover have "year_at ?rest = Some y" unfolding year_at_iff using t by blast
    ultimately show "\<exists>pre rest. q = pre @ rest \<and> rest \<noteq> [] \<and> boundary (before None pre) rest \<and> year_at rest \<noteq> None"
      using q y by (intro exI[of _ pre] exI[of _ ?rest]) simp
  next
    assume "\<exists>pre rest. q = pre @ rest \<and> rest \<noteq> [] \<and> boundary (before None pre) rest \<and> year_at rest \<noteq> None"
    then obtain pre rest y where q: "q = pre @ rest" and ne: "rest \<noteq> []"
      and b: "boundary (before None pre) rest" and m: "year_at rest = Some y" by blast
    from m obtain post where r: "rest = y @ post"
      and t: "length y = 4" "list_all is_digit y" "prefix ''19'' y \<or> prefix ''20'' y" "word_end post"
      unfolding year_at_iff by blast
    from t(1) obtain d y' where y: "y = d # y'" by (cases y) auto
    with t(2) r have "is_word (hd rest)" using is_word_digit by simp
    with b ne have "word_start pre" using boundary_before_word[of rest pre] by simp
    with q r t show "has_year_token q" unfolding has_year_token_def by blast
  qed
  then show ?thesis
    unfolding year_search_def search_at_boundary_None_iff by blast
qed

lemma search_at_boundary_Some:
  "search_at_boundary pat p s = Some g \<Longrightarrow> \<exists>rest. pat rest = Some g"
  by (induction s arbitrary: p) (auto split: if_splits option.splits)

lemma year_search_range:
  "year_search q = Some y \<Longrightarrow> 1900 \<le> int_of_digits y \<and> int_of_digits y \<le> 2099"
  unfolding year_search_def using search_at_boundary_Some year_at_range by blast

lemma parse_year_range_decade:
  "decade_search q = Some ds \<Longrightarrow> parse_year_range q = Some (decade_start ds, decade_start ds + 9)"
  using two_digit_decade[of ds] by (auto simp: parse_year_range_def decade_start_def Let_def)

lemma parse_year_range_year:
  "decade_search q = None \<Longrightarrow> year_search q = Some y \<Longrightarrow>
   parse_year_range q = Some (int_of_digits y, int_of_digits y)"
  by (simp add: parse_year_range_def Let_def)

lemma parse_year_range_None_iff:
  "parse_year_range q = None \<longleftrightarrow> \<not> has_decade_token q \<and> \<not> has_year_token q"
  unfolding decade_search_None_iff[symmetric] year_search_None_iff[symmetric]
  by (auto simp: parse_year_range_def Let_def split: option.splits)

lemma before_take: "k < length pre \<Longrightarrow> before p (take (Suc k) pre) = Some (pre ! k)"
  by (simp add: before_def take_Suc_conv_app_nth)

lemma search_skip_unmatched:
  "(\<forall>k < length pre. \<not> (boundary (before p (take k pre)) (drop k (pre @ rest))
                           \<and> pat (drop k (pre @ rest)) \<noteq> None)) \<Longrightarrow>
   search_at_boundary pat p (pre @ rest) = search_at_boundary pat (before p pre) rest"
proof (induction pre arbitrary: p)
  case Nil
  then show ?case by (simp add: before_def)
next
  case (Cons c pre)
  from Cons.prems[rule_format, of 0]
  have h0: "\<not> (boundary p (c # pre @ rest) \<and> pat (c # pre @ rest) \<noteq> None)"
    by (simp add: before_def)
  have "\<forall>k < length pre. \<not> (boundary (before (Some c) (take k pre)) (drop k (pre @ rest))
                           \<and> pat (drop k (pre @ rest)) \<noteq> None)"
  proof (intro allI impI)
    fix k assume "k < length pre"
    then have "Suc k < length (c # pre)" by simp
    from Cons.prems[rule_format, OF this]
    show "\<not> (boundary (before (Some c) (take k pre)) (drop k (pre @ rest))
              \<and> pat (drop k (pre @ rest)) \<noteq> None)"
      by (simp add: before_Cons)
  qed
  from Cons.IH[OF this] h0 show ?case by (auto simp: before_Cons split: option.splits)
qed

lemma search_at_boundary_Some_iff:
  "search_at_boundary pat p s = Some g \<longleftrightarrow>
     (\<exists>pre rest. s = pre @ rest \<and> rest \<noteq> [] \<and> boundary (before p pre) rest \<and> pat rest = Some g
        \<and> (\<forall>pre' rest'. s = pre' @ rest' \<and> length pre' < length pre
              \<longrightarrow> \<not> (boundary (before p pre') rest' \<and> pat rest' \<noteq> None)))"
  (is "?L \<longleftrightarrow> ?R")
proof
  assume ?R
  then obtain pre rest where s: "s = pre @ rest" and ne: "rest \<noteq> []"
    and b: "boundary (before p pre) rest" and m: "pat rest = Some g"
    and first: "\<forall>pre' rest'. s = pre' @ rest' \<and> length pre' < length pre
              \<longrightarrow> \<not> (boundary (before p pre') rest' \<and> pat rest' \<noteq> None)" by blast
  have "\<forall>k < length pre. \<not> (boundary (before p (take k pre)) (drop k (pre @ rest))
                           \<and> pat (drop k (pre @ rest)) \<noteq> None)"
  proof (intro allI impI)
    fix k assume k: "k < length pre"
    have "s = take k pre @ drop k (pre @ rest)" using s k by simp
    moreover have "length (take k pre) < length pre" using k by simp
    ultimately show "\<not> (boundary (before p (take k pre)) (drop k (pre @ rest))
                           \<and> pat (drop k (pre @ rest)) \<noteq> None)"
      using first by blast
  qed
  from search_skip_unmatched[OF this]
  have "search_at_boundary pat p s = search_at_boundary pat (before p pre) rest" using s by simp
  moreover from ne obtain c cs where "rest = c # cs" by (cases rest) auto
  ultimately show ?L using b m by simp
next
  assume ?L
  then show ?R
  proof (induction s arbitrary: p)
    case Nil
    then show ?case by simp
  next
    case (Cons c cs)
    show ?case
    proof (cases "boundary p (c # cs) \<and> pat (c # cs) \<noteq> None")
      case True
      with Cons.prems have "pat (c # cs) = Some g" by (auto split: option.splits)
      with True have "c # cs = [] @ (c # cs) \<and> c # cs \<noteq> [] \<and> boundary (before p []) (c # cs)
          \<and> pat (c # cs) = Some g
          \<and> (\<forall>pre' rest'. c # cs = pre' @ rest' \<and> length pre' < length ([] :: string)
              \<longrightarrow> \<not> (boundary (before p pre') rest' \<and> pat rest' \<noteq> None))"
        by (simp add: before_def)
      then show ?thesis by blast
    next
      case False
      with Cons.prems have "search_at_boundary pat (Some c) cs = Some g"
        by (auto split: option.splits if_splits)
      from Cons.IH[OF this] obtain pre rest where cs: "cs = pre @ rest" and ne: "rest \<noteq> []"
        and b: "boundary (before (Some c) pre) rest" and m: "pat rest = Some g"
        and first: "\<forall>pre' rest'. cs = pre' @ rest' \<and> length pre' < length pre
              \<longrightarrow> \<not> (boundary (before (Some c) pre') rest' \<and> pat rest' \<noteq> None)" by blast
      have first': "\<forall>pre' rest'. c # cs = pre' @ rest' \<and> length pre' < length (c # pre)
              \<longrightarrow> \<not> (boundary (before p pre') rest' \<and> pat rest' \<noteq> None)"
      proof (intro allI impI)
        fix pre' rest' assume h: "c # cs = pre' @ rest' \<and> length pre' < length (c # pre)"
        show "\<not> (boundary (before p pre') rest' \<and> pat rest' \<noteq> None)"
        proof (cases pre')
          case Nil
          with h False show ?thesis by (simp add: before_def)
        next
          case (Cons x pre'')
          with h have "cs = pre'' @ rest' \<and> length pre'' < length pre" and "x = c" by auto
          with first Cons show ?thesis by (metis before_Cons)
        qed
      qed
      have "c # cs = (c # pre) @ rest" using cs by simp
      moreover have "boundary (before p (c # pre)) rest" using b by (simp add: before_Cons)
      ultimately show ?thesis using ne m first' by blast
    qed
  qed
qed

lemma decade_at_Some_iff: "decade_at rest = Some ds \<longleftrightarrow> decade_token_here ds rest"
proof
  assume "decade_token_here ds rest"
  then show "decade_at rest = Some ds"
    unfolding decade_token_here_def using decade_at_token by blast
next
  assume a: "decade_at rest = Some ds"
  then have "decade_at rest \<noteq> None" by simp
  then obtain ds' mid post where r: "rest = ds' @ mid @ ''s'' @ post"
    and t: "2 \<le> length ds'" "length ds' \<le> 4" "list_all is_digit ds'" "gap mid" "word_end post"
    unfolding decade_at_iff by blast
  from decade_at_token[OF t] r a have "ds' = ds" by simp
  with r t show "decade_token_here ds rest" unfolding decade_token_here_def by blast
qed

lemma decade_token_here_start:
  "decade_token_here ds rest \<Longrightarrow> rest \<noteq> [] \<and> is_word (hd rest)"
proof -
  assume "decade_token_here ds rest"
  then obtain mid post where r: "rest = ds @ mid @ ''s'' @ post" and l: "2 \<le> length ds"
    and d: "list_all is_digit ds" unfolding decade_token_here_def by blast
  from l obtain c cs where "ds = c # cs" by (cases ds) auto
  with r d show ?thesis using is_word_digit by simp
qed

lemma year_here_start: "year_here y rest \<Longrightarrow> rest \<noteq> [] \<and> is_word (hd rest)"
proof -
  assume "year_here y rest"
  then obtain post where r: "rest = y @ post" and l: "length y = 4"
    and d: "list_all is_digit y" unfolding year_here_def by blast
  from l obtain c cs where "y = c # cs" by (cases y) auto
  with r d show ?thesis using is_word_digit by simp
qed

lemma year_at_Some_iff: "year_at rest = Some y \<longleftrightarrow> year_here y rest"
  unfolding year_here_def by (rule year_at_iff)

lemma decade_search_Some_iff: "decade_search q = Some ds \<longleftrightarrow> leftmost_decade_token q ds"
proof -
  have tok: "(boundary (before None pre) rest \<and> decade_at rest \<noteq> None)
              \<longleftrightarrow> (\<exists>ds'. word_start pre \<and> decade_token_here ds' rest)" for pre rest
  proof
    assume a: "boundary (before None pre) rest \<and> decade_at rest \<noteq> None"
    then obtain ds' where d: "decade_at rest = Some ds'" by auto
    then have t: "decade_token_here ds' rest" by (simp only: decade_at_Some_iff)
    with a have "word_start pre"
      using decade_token_here_start[OF t] boundary_before_word[of rest pre] by simp
    with t show "\<exists>ds'. word_start pre \<and> decade_token_here ds' rest" by blast
  next
    assume "\<exists>ds'. word_start pre \<and> decade_token_here ds' rest"
    then obtain ds' where w: "word_start pre" and t: "decade_token_here ds' rest" by blast
    from t have "decade_at rest = Some ds'" by (simp only: decade_at_Some_iff)
    moreover have "boundary (before None pre) rest"
      using w decade_token_here_start[OF t] boundary_before_word[of rest pre] by simp
    ultimately show "boundary (before None pre) rest \<and> decade_at rest \<noteq> None" by simp
  qed
  have here: "(rest \<noteq> [] \<and> boundary (before None pre) rest \<and> decade_at rest = Some ds)
              \<longleftrightarrow> (word_start pre \<and> decade_token_here ds rest)" for pre rest
    using tok[of pre rest] decade_at_Some_iff[of rest ds] decade_token_here_start[of ds rest]
    by (metis option.distinct(1))
  show ?thesis
    unfolding decade_search_def search_at_boundary_Some_iff leftmost_decade_token_def
    using tok here by (metis (no_types, opaque_lifting))
qed


lemma year_search_Some_iff: "year_search q = Some y \<longleftrightarrow> leftmost_year_token q y"
proof -
  have tok: "(boundary (before None pre) rest \<and> year_at rest \<noteq> None)
              \<longleftrightarrow> (\<exists>y'. word_start pre \<and> year_here y' rest)" for pre rest
  proof
    assume a: "boundary (before None pre) rest \<and> year_at rest \<noteq> None"
    then obtain y' where d: "year_at rest = Some y'" by auto
    then have t: "year_here y' rest" by (simp only: year_at_Some_iff)
    with a have "word_start pre"
      using year_here_start[OF t] boundary_before_word[of rest pre] by simp
    with t show "\<exists>y'. word_start pre \<and> year_here y' rest" by blast
  next
    assume "\<exists>y'. word_start pre \<and> year_here y' rest"
    then obtain y' where w: "word_start pre" and t: "year_here y' rest" by blast
    from t have "year_at rest = Some y'" by (simp only: year_at_Some_iff)
    moreover have "boundary (before None pre) rest"
      using w year_here_start[OF t] boundary_before_word[of rest pre] by simp
    ultimately show "boundary (before None pre) rest \<and> year_at rest \<noteq> None" by simp
  qed
  have here: "(rest \<noteq> [] \<and> boundary (before None pre) rest \<and> year_at rest = Some y)
              \<longleftrightarrow> (word_start pre \<and> year_here y rest)" for pre rest
    using tok[of pre rest] year_at_Some_iff[of rest y] year_here_start[of y rest]
    by (metis option.distinct(1))
  show ?thesis
    unfolding year_search_def search_at_boundary_Some_iff leftmost_year_token_def
    using tok here by (metis (no_types, opaque_lifting))
qed

lemma leftmost_decade_exists: "has_decade_token q \<Longrightarrow> \<exists>ds. leftmost_decade_token q ds"
  using decade_search_None_iff[of q] decade_search_Some_iff[of q] by (cases "decade_search q") auto

lemma leftmost_year_exists: "has_year_token q \<Longrightarrow> \<exists>y. leftmost_year_token q y"
  using year_search_None_iff[of q] year_search_Some_iff[of q] by (cases "year_search q") auto

lemma parse_year_range_unicode_example:
  "parse_year_range (''caf'' @ [CHR 0xE9] @ ''90s'') = None"
  by code_simp

lemma decade_start_two_digits:
  "length ds = 2 \<Longrightarrow> decade_start ds = int_of_digits (''19'' @ ds)"
  using two_digit_decade[of ds] by (simp add: decade_start_def del: append.simps)

text \<open>
  Claim C4, as amended. \<open>parse_year_range\<close> returns (1990, 1999) on \<open>90s movies\<close>:
  the two digits of a decade token are prefixed with 19. It returns (1920, 1929) on
  \<open>1920s\<close> and on every text whose leftmost decade token is \<open>1920s\<close>: whenever the
  text has a decade token, the leftmost one decides, whatever stands before it. A decade
  token is 2 to 4 digits that start a word, followed by at most one whitespace character,
  at most one apostrophe and an \<open>s\<close> that ends a word. It returns (2015, 2015) on
  \<open>from 2015\<close>: when the text has no decade token, the leftmost year of four digits
  from 1900 to 2099 that is a word of its own maps to (year, year). There is no match on
  \<open>timeless classics\<close>, and in general exactly on the texts that have neither a decade
  token nor such a year. Accented letters are word characters: in \<open>caf\<close>, e with acute
  accent, \<open>90s\<close> no word starts before the digits and there is no match.
\<close>

theorem parse_year_range_leftmost_decade_then_year:
  "parse_year_range ''90s movies'' = Some (1990, 1999)
   \<and> parse_year_range ''1920s'' = Some (1920, 1929)
   \<and> parse_year_range ''from 2015'' = Some (2015, 2015)
   \<and> parse_year_range ''timeless classics'' = None
   \<and> parse_year_range (''caf'' @ [CHR 0xE9] @ ''90s'') = None
   \<and> (leftmost_decade_token q ds \<longrightarrow>
        parse_year_range q = Some (decade_start ds, decade_start ds + 9))
   \<and> (length ds = 2 \<longrightarrow> decade_start ds = int_of_digits (''19'' @ ds))
   \<and> (has_decade_token q \<longrightarrow> (\<exists>ds'. leftmost_decade_token q ds'))
   \<and> ((\<forall>c \<in> set pre. \<not> is_digit c) \<and> word_start pre \<and> word_end post
      \<longrightarrow> parse_year_range (pre @ ''1920s'' @ post) = Some (1920, 1929))
   \<and> (\<not> has_decade_token q \<and> leftmost_year_token q y \<longrightarrow>
        parse_year_range q = Some (int_of_digits y, int_of_digits y)
        \<and> 1900 \<le> int_of_digits y \<and> int_of_digits y \<le> 2099)
   \<and> (has_year_token q \<longrightarrow> (\<exists>y'. leftmost_year_token q y'))
   \<and> (parse_year_range q = None \<longleftrightarrow> \<not> has_decade_token q \<and> \<not> has_year_token q)"
proof -
  have dec: "leftmost_decade_token q ds \<longrightarrow>
        parse_year_range q = Some (decade_start ds, decade_start ds + 9)"
    using parse_year_range_decade decade_search_Some_iff by blast
  have two: "length ds = 2 \<longrightarrow> decade_start ds = int_of_digits (''19'' @ ds)"
    using decade_start_two_digits by blast
  have dex: "has_decade_token q \<longrightarrow> (\<exists>ds'. leftmost_decade_token q ds')"
    using leftmost_decade_exists by blast
  have twenties: "(\<forall>c \<in> set pre. \<not> is_digit c) \<and> word_start pre \<and> word_end post
      \<longrightarrow> parse_year_range (pre @ ''1920s'' @ post) = Some (1920, 1929)"
  proof
    assume h: "(\<forall>c \<in> set pre. \<not> is_digit c) \<and> word_start pre \<and> word_end post"
    have d: "list_all is_digit ''1920''" by (simp add: is_digit_def)
    have g: "gap []" using gapI[of "[]" "[]"] by simp
    have "decade_search (pre @ ''1920'' @ [] @ ''s'' @ post) = Some ''1920''"
      using h d g by (intro decade_token_found) simp_all
    then have "parse_year_range (pre @ ''1920'' @ [] @ ''s'' @ post)
                 = Some (decade_start ''1920'', decade_start ''1920'' + 9)"
      by (rule parse_year_range_decade)
    moreover have "decade_start ''1920'' = 1920" by (simp add: decade_start_def int_of_digits_def)
    ultimately show "parse_year_range (pre @ ''1920s'' @ post) = Some (1920, 1929)" by simp
  qed
  have yr: "\<not> has_decade_token q \<and> leftmost_year_token q y \<longrightarrow>
        parse_year_range q = Some (int_of_digits y, int_of_digits y)
        \<and> 1900 \<le> int_of_digits y \<and> int_of_digits y \<le> 2099"
  proof
    assume h: "\<not> has_decade_token q \<and> leftmost_year_token q y"
    then have n: "decade_search q = None" by (simp add: decade_search_None_iff)
    from h have s: "year_search q = Some y" by (simp add: year_search_Some_iff)
    from parse_year_range_year[OF n s] year_search_range[OF s]
    show "parse_year_range q = Some (int_of_digits y, int_of_digits y)
        \<and> 1900 \<le> int_of_digits y \<and> int_of_digits y \<le> 2099" by blast
  qed
  have yex: "has_year_token q \<longrightarrow> (\<exists>y'. leftmost_year_token q y')"
    using leftmost_year_exists by blast
  from parse_year_range_examples parse_year_range_unicode_example dec two dex twenties yr yex
    parse_year_range_None_iff[of q]
  show ?thesis by blast
qed

theorem parse_year_range_leftmost_decade_then_year_witness:
  "leftmost_decade_token ''top 5 films of the 1920s'' ''1920''
   \<and> parse_year_range ''top 5 films of the 1920s'' = Some (1920, 1929)"
proof -
  have "decade_search ''top 5 films of the 1920s'' = Some ''1920''" by code_simp
  then have l: "leftmost_decade_token ''top 5 films of the 1920s'' ''1920''"
    by (simp only: decade_search_Some_iff)
  have d: "decade_start ''1920'' = 1920" by code_simp
  from parse_year_range_leftmost_decade_then_year[of "''top 5 films of the 1920s''" "''1920''"] l
  have "parse_year_range ''top 5 films of the 1920s''
          = Some (decade_start ''1920'', decade_start ''1920'' + 9)" by blast
  with l d show ?thesis by simp
qed

text \<open>
  The claim as stated gives (1920, 1929) on every text that contains \<open>1920s\<close>. An
  earlier decade token in the text takes precedence.
\<close>

theorem parse_year_range_earlier_decade_wins_counterexample:
  "contains ''1920s'' ''80s remakes of 1920s films''
   \<and> parse_year_range ''80s remakes of 1920s films'' = Some (1980, 1989)
   \<and> parse_year_range ''80s remakes of 1920s films'' \<noteq> Some (1920, 1929)"
  by code_simp

section \<open>The genre of a query\<close>

lemma fuzzy_loop_first_token:
  "fuzzy_loop ws = Some g \<longleftrightarrow>
     (\<exists>i < length ws. find (fuzzy_hit (ws ! i)) genres = Some g
                     \<and> (\<forall>k < i. find (fuzzy_hit (ws ! k)) genres = None))"
proof (induction ws)
  case Nil
  then show ?case by simp
next
  case (Cons w ws)
  show ?case
  proof (cases "find (fuzzy_hit w) genres")
    case None
    have "(\<exists>i < length (w # ws). find (fuzzy_hit ((w # ws) ! i)) genres = Some g
              \<and> (\<forall>k < i. find (fuzzy_hit ((w # ws) ! k)) genres = None))
          \<longleftrightarrow> (\<exists>i < length ws. find (fuzzy_hit (ws ! i)) genres = Some g
              \<and> (\<forall>k < i. find (fuzzy_hit (ws ! k)) genres = None))" (is "?L \<longleftrightarrow> ?R")
    proof
      assume ?L
      then obtain i where i: "i < length (w # ws)" "find (fuzzy_hit ((w # ws) ! i)) genres = Some g"
        "\<forall>k < i. find (fuzzy_hit ((w # ws) ! k)) genres = None" by blast
      with None obtain j where j: "i = Suc j" by (cases i) auto
      from i(3) j have "\<forall>k < j. find (fuzzy_hit (ws ! k)) genres = None" by auto
      with i j show ?R by auto
    next
      assume ?R
      then obtain j where j: "j < length ws" "find (fuzzy_hit (ws ! j)) genres = Some g"
        "\<forall>k < j. find (fuzzy_hit (ws ! k)) genres = None" by blast
      have "\<forall>k < Suc j. find (fuzzy_hit ((w # ws) ! k)) genres = None"
        using None j(3) by (auto simp: less_Suc_eq_0_disj)
      with j show ?L by (intro exI[of _ "Suc j"]) auto
    qed
    with None Cons.IH show ?thesis by (simp add: fuzzy_hit_def[abs_def])
  next
    case (Some h)
    have "(\<exists>i < length (w # ws). find (fuzzy_hit ((w # ws) ! i)) genres = Some g
              \<and> (\<forall>k < i. find (fuzzy_hit ((w # ws) ! k)) genres = None)) \<longleftrightarrow> h = g"
    proof
      assume "\<exists>i < length (w # ws). find (fuzzy_hit ((w # ws) ! i)) genres = Some g
              \<and> (\<forall>k < i. find (fuzzy_hit ((w # ws) ! k)) genres = None)"
      then obtain i where i: "find (fuzzy_hit ((w # ws) ! i)) genres = Some g"
        "\<forall>k < i. find (fuzzy_hit ((w # ws) ! k)) genres = None" by blast
      have "i = 0" using i(2) Some by (cases i) auto
      with i Some show "h = g" by simp
    next
      assume "h = g"
      with Some show "\<exists>i < length (w # ws). find (fuzzy_hit ((w # ws) ! i)) genres = Some g
              \<and> (\<forall>k < i. find (fuzzy_hit ((w # ws) ! k)) genres = None)"
        by (intro exI[of _ 0]) simp
    qed
    with Some show ?thesis by (simp add: fuzzy_hit_def[abs_def])
  qed
qed

lemma fuzzy_loop_none:
  "fuzzy_loop ws = None \<longleftrightarrow> (\<forall>w \<in> set ws. \<forall>g \<in> set genres. \<not> fuzzy_hit w g)"
  by (induction ws) (auto simp: fuzzy_hit_def find_None_iff find_Some_iff split: option.splits)


lemma parse_genre_examples:
  "parse_genre ''I like scifi films'' = Some ''sci-fi''"
  "parse_genre ''horor movie'' = Some ''horror''"
  "parse_genre ''plain drama'' = Some ''drama''"
  by code_simp+

lemma parse_genre_latin1_examples:
  "parse_genre (''m'' @ [CHR 0xE9] @ ''stery'') = Some ''mystery''"
  "parse_genre (''horor'' @ [CHR 0xA0] @ ''film'') = Some ''horror''"
  by code_simp+

lemma exact_genre_spaces:
  "exact_genre q g \<longleftrightarrow> (\<exists>pre post. '' '' @ q @ '' '' = pre @ '' '' @ g @ '' '' @ post)"
  by (simp add: exact_genre_def contains_def sublist_def)

text \<open>
  Claim C5, as amended. \<open>parse_genre\<close> returns \<open>sci-fi\<close> whenever the input contains
  the alias \<open>scifi\<close>. Otherwise it returns the first genre of the vocabulary that occurs
  in the input between spaces or the ends of the input; a genre with a punctuation mark
  next to it is not found at this stage. Otherwise it goes through the tokens of the input
  (the runs of non-whitespace) from left to right and, for each token, through the
  vocabulary in order, and returns the first genre whose similarity ratio with the token at
  hand exceeds 80 on the scale 0 to 100: the first token that has such a genre decides, and
  no best match is sought. When no token and genre clear the threshold there is no match.
  In particular \<open>I like scifi films\<close> gives \<open>sci-fi\<close>, \<open>horor movie\<close> gives
  \<open>horror\<close> and \<open>plain drama\<close> gives \<open>drama\<close>. The ratio counts code points and
  the no-break space separates tokens: \<open>m\<close>, e with acute accent, \<open>stery\<close> gives
  \<open>mystery\<close>, and \<open>horor\<close>, no-break space, \<open>film\<close> gives \<open>horror\<close>.
\<close>

theorem parse_genre_alias_exact_then_fuzzy_by_token:
  "(contains ''scifi'' q \<longrightarrow> parse_genre q = Some ''sci-fi'')
   \<and> (\<not> contains ''scifi'' q \<longrightarrow>
        (\<forall>i < length genres. exact_genre q (genres ! i) \<and> (\<forall>j < i. \<not> exact_genre q (genres ! j))
             \<longrightarrow> parse_genre q = Some (genres ! i)))
   \<and> (\<not> contains ''scifi'' q \<and> (\<forall>g \<in> set genres. \<not> exact_genre q g) \<longrightarrow>
        (\<forall>i j. i < length (split_ws q) \<and> j < length genres
               \<and> fuzz_ratio (genres ! j) (split_ws q ! i) > 80
               \<and> (\<forall>k < i. \<forall>g \<in> set genres. \<not> fuzz_ratio g (split_ws q ! k) > 80)
               \<and> (\<forall>l < j. \<not> fuzz_ratio (genres ! l) (split_ws q ! i) > 80)
             \<longrightarrow> parse_genre q = Some (genres ! j))
        \<and> ((\<forall>w \<in> set (split_ws q). \<forall>g \<in> set genres. \<not> fuzz_ratio g w > 80)
             \<longrightarrow> parse_genre q = None))
   \<and> (exact_genre q g \<longleftrightarrow> (\<exists>pre post. '' '' @ q @ '' '' = pre @ '' '' @ g @ '' '' @ post))
   \<and> parse_genre ''I like scifi films'' = Some ''sci-fi''
   \<and> parse_genre ''horor movie'' = Some ''horror''
   \<and> parse_genre ''plain drama'' = Some ''drama''
   \<and> parse_genre (''m'' @ [CHR 0xE9] @ ''stery'') = Some ''mystery''
   \<and> parse_genre (''horor'' @ [CHR 0xA0] @ ''film'') = Some ''horror''"
proof -
  have scifi: "contains ''scifi'' q \<longrightarrow> parse_genre q = Some ''sci-fi''"
    by (simp add: parse_genre_def)
  have exact: "parse_genre q = Some (genres ! i)"
    if "\<not> contains ''scifi'' q" "i < length genres" "exact_genre q (genres ! i)"
       "\<forall>j < i. \<not> exact_genre q (genres ! j)" for i
  proof -
    from that have "find (exact_genre q) genres = Some (genres ! i)"
      unfolding find_Some_iff by blast
    with that(1) show ?thesis by (simp add: parse_genre_def)
  qed
  have to_loop: "parse_genre q = fuzzy_loop (split_ws q)"
    if "\<not> contains ''scifi'' q" "\<forall>g \<in> set genres. \<not> exact_genre q g"
  proof -
    from that(2) have "find (exact_genre q) genres = None" by (simp add: find_None_iff)
    with that(1) show ?thesis by (simp add: parse_genre_def)
  qed
  have hit: "fuzzy_loop ws = Some (genres ! j)"
    if "i < length ws" "j < length genres" "fuzz_ratio (genres ! j) (ws ! i) > 80"
       "\<forall>k < i. \<forall>g \<in> set genres. \<not> fuzz_ratio g (ws ! k) > 80"
       "\<forall>l < j. \<not> fuzz_ratio (genres ! l) (ws ! i) > 80" for ws i j
  proof -
    have a: "find (fuzzy_hit (ws ! i)) genres = Some (genres ! j)"
      unfolding find_Some_iff fuzzy_hit_def using that(2,3,5) by blast
    have b: "\<forall>k < i. find (fuzzy_hit (ws ! k)) genres = None"
      unfolding find_None_iff fuzzy_hit_def using that(4) by blast
    from a b that(1) show ?thesis unfolding fuzzy_loop_first_token by blast
  qed
  have miss: "fuzzy_loop ws = None"
    if "\<forall>w \<in> set ws. \<forall>g \<in> set genres. \<not> fuzz_ratio g w > 80" for ws
    using that unfolding fuzzy_loop_none fuzzy_hit_def by blast
  have fuzzy: "\<not> contains ''scifi'' q \<and> (\<forall>g \<in> set genres. \<not> exact_genre q g) \<longrightarrow>
        (\<forall>i j. i < length (split_ws q) \<and> j < length genres
               \<and> fuzz_ratio (genres ! j) (split_ws q ! i) > 80
               \<and> (\<forall>k < i. \<forall>g \<in> set genres. \<not> fuzz_ratio g (split_ws q ! k) > 80)
               \<and> (\<forall>l < j. \<not> fuzz_ratio (genres ! l) (split_ws q ! i) > 80)
             \<longrightarrow> parse_genre q = Some (genres ! j))
        \<and> ((\<forall>w \<in> set (split_ws q). \<forall>g \<in> set genres. \<not> fuzz_ratio g w > 80)
             \<longrightarrow> parse_genre q = None)"
    using to_loop hit[of _ "split_ws q"] miss[of "split_ws q"] by metis
  from scifi exact fuzzy exact_genre_spaces[of q g] parse_genre_examples
    parse_genre_latin1_examples
  show ?thesis by blast
qed

theorem parse_genre_alias_exact_then_fuzzy_by_token_witness:
  "split_ws ''comdy horor'' = [''comdy'', ''horor'']
   \<and> genres ! 4 = ''comedy''
   \<and> parse_genre ''comdy horor'' = Some (genres ! 4)"
proof -
  have a: "\<not> contains ''scifi'' ''comdy horor''" by code_simp
  have b: "\<forall>g \<in> set genres. \<not> exact_genre ''comdy horor'' g" by code_simp
  have w: "split_ws ''comdy horor'' = [''comdy'', ''horor'']" by code_simp
  have g4: "genres ! 4 = ''comedy''" by code_simp
  have c: "fuzz_ratio (genres ! 4) (split_ws ''comdy horor'' ! 0) > 80" by code_simp
  have d: "\<forall>l < 4. \<not> fuzz_ratio (genres ! l) (split_ws ''comdy horor'' ! 0) > 80"
  proof -
    have "\<forall>l \<in> set [0, 1, 2, 3 :: nat]. \<not> fuzz_ratio (genres ! l) (split_ws ''comdy horor'' ! 0) > 80"
      by code_simp
    moreover have "l \<in> set [0, 1, 2, 3 :: nat]" if "l < 4" for l :: nat
      using that by auto
    ultimately show ?thesis by blast
  qed
  have e: "(0 :: nat) < length (split_ws ''comdy horor'') \<and> (4 :: nat) < length genres" by code_simp
  from parse_genre_alias_exact_then_fuzzy_by_token[of "''comdy horor''"] a b c d e
  have "parse_genre ''comdy horor'' = Some (genres ! 4)" by blast
  with w g4 show ?thesis by blast
qed

text \<open>
  The claim as stated takes the first genre of the vocabulary that some token of the
  input resembles. On \<open>horor comdy\<close> that is \<open>comedy\<close>, which stands before
  \<open>horror\<close> in the vocabulary; the code returns \<open>horror\<close>, the genre of the first
  token. The claim as stated also takes the first genre of the vocabulary that is a whole
  word of the input. On \<open>comedy, horror\<close> that is \<open>comedy\<close>; the code does not find
  it before the comma and returns \<open>horror\<close>.
\<close>

theorem parse_genre_first_token_decides_counterexample:
  "\<not> contains ''scifi'' ''horor comdy''
   \<and> find (exact_genre ''horor comdy'') genres = None
   \<and> first_fuzzy_genre_of_vocabulary ''horor comdy'' = Some ''comedy''
   \<and> parse_genre ''horor comdy'' = Some ''horror''
   \<and> \<not> contains ''scifi'' ''comedy, horror''
   \<and> find (\<lambda>g. whole_word_in g ''comedy, horror'') genres = Some ''comedy''
   \<and> parse_genre ''comedy, horror'' = Some ''horror''"
  by code_simp

section \<open>The search loop filters, deduplicates and truncates\<close>

lemma search_loop_spec:
  "length filtered < 5 \<Longrightarrow>
   search_loop yr g results seen filtered =
     filtered @ take (5 - length filtered) (first_per_title seen (filter (passes yr g) results))"
proof (induction results arbitrary: seen filtered)
  case Nil
  then show ?case by simp
next
  case (Cons d results)
  show ?case
  proof (cases "search_title d \<in> seen")
    case True
    then show ?thesis using Cons by (simp add: passes_def)
  next
    case unseen: False
    show ?thesis
    proof (cases "passes yr g d")
      case False
      then show ?thesis using unseen Cons by (auto simp add: passes_def)
    next
      case True
      show ?thesis
      proof (cases "length filtered = 4")
        case True
        with \<open>passes yr g d\<close> unseen show ?thesis by (simp add: passes_def)
      next
        case False
        with Cons.prems have lt: "length (filtered @ [d]) < 5" by simp
        have "5 - length filtered = Suc (5 - length (filtered @ [d]))" using lt by simp
        with Cons.IH[OF lt] \<open>passes yr g d\<close> unseen False show ?thesis
          by (simp add: passes_def)
      qed
    qed
  qed
qed

lemma first_per_title_set: "set (first_per_title seen ds) \<subseteq> set ds"
  by (induction ds arbitrary: seen) auto

lemma first_per_title_unseen: "d \<in> set (first_per_title seen ds) \<Longrightarrow> search_title d \<notin> seen"
  by (induction ds arbitrary: seen) (auto split: if_splits)

lemma first_per_title_distinct: "distinct (map search_title (first_per_title seen ds))"
  by (induction ds arbitrary: seen) (auto dest: first_per_title_unseen)

lemma first_per_title_subseq: "subseq (first_per_title seen ds) ds"
  by (induction ds arbitrary: seen) auto

lemma subseq_take_filter: "subseq (take n (first_per_title seen (filter P ds))) ds"
proof -
  have "subseq (take n (first_per_title seen (filter P ds))) (first_per_title seen (filter P ds))"
    by (metis append_take_drop_id list_emb_append_mono subseq_order.order_refl list_emb_Nil self_append_conv)
  also have "subseq \<dots> (filter P ds)" by (rule first_per_title_subseq)
  also have "subseq \<dots> ds" by simp
  finally show ?thesis .
qed

lemma find_genres_nonempty: "find P genres = Some g \<Longrightarrow> g \<noteq> []"
  by (auto simp: find_Some_iff genres_def nth_Cons' split: if_splits)

lemma fuzzy_loop_nonempty: "fuzzy_loop ws = Some g \<Longrightarrow> g \<noteq> []"
  by (induction ws) (auto split: option.splits dest: find_genres_nonempty)

lemma parse_genre_nonempty: "parse_genre q = Some g \<Longrightarrow> g \<noteq> []"
  by (auto simp: parse_genre_def split: if_splits option.splits
           dest: find_genres_nonempty fuzzy_loop_nonempty)

text \<open>
  Claim C1, as amended. For every query and every index, \<open>search_movies\<close> keeps at most
  5 entries, their titles are pairwise distinct, and they are the first document per title,
  in the order of the candidates, among the 30 candidates that get through the two checks.
  Every entry kept whose text bears a marker \<open>Year: NNNN\<close> has the year of its leftmost
  marker in the parsed range; an entry whose text bears no marker is not checked against
  the range. Every entry kept satisfies the genre filter (the parsed genre occurs in the
  lower-cased text). When nothing is kept the answer is the message that no movies were
  found; otherwise it lists exactly the entries kept.
\<close>

theorem search_movies_at_most_five_distinct_filtered:
  "length (search_filtered vs query) \<le> 5
   \<and> distinct (map search_title (search_filtered vs query))
   \<and> subseq (search_filtered vs query) (vs query 30)
   \<and> search_filtered vs query =
        take 5 (first_per_title {} (filter (passes (parse_year_range (lower query))
                                                   (parse_genre (lower query))) (vs query 30)))
   \<and> (\<forall>d \<in> set (search_filtered vs query).
         (\<forall>lo hi m. parse_year_range (lower query) = Some (lo, hi)
                      \<and> year_marker_search (page_content d) = Some m
               \<longrightarrow> lo \<le> int_of_digits m \<and> int_of_digits m \<le> hi)
         \<and> (\<forall>g. parse_genre (lower query) = Some g \<longrightarrow> contains g (lower (page_content d))))
   \<and> (search_filtered vs query = [] \<longrightarrow> search_movies (Some vs) query = no_movies_found)
   \<and> (search_filtered vs query \<noteq> [] \<longrightarrow>
         search_movies (Some vs) query =
           ''Here is what I found:'' @ nl @ nl @ format_found 1 (search_filtered vs query))"
proof -
  let ?yr = "parse_year_range (lower query)" and ?g = "parse_genre (lower query)"
  let ?spec = "take 5 (first_per_title {} (filter (passes ?yr ?g) (vs query 30)))"
  have eq: "search_filtered vs query = ?spec"
    using search_loop_spec[of "[]" ?yr ?g "vs query 30" "{}"]
    by (simp add: search_filtered_def Let_def)
  have len: "length (search_filtered vs query) \<le> 5" unfolding eq by simp
  have dist: "distinct (map search_title (search_filtered vs query))"
    unfolding eq take_map[symmetric] by (rule distinct_take) (rule first_per_title_distinct)
  have sub: "subseq (search_filtered vs query) (vs query 30)"
    unfolding eq by (rule subseq_take_filter)
  have pass: "passes ?yr ?g d" if "d \<in> set (search_filtered vs query)" for d
  proof -
    from that have "d \<in> set (first_per_title {} (filter (passes ?yr ?g) (vs query 30)))"
      unfolding eq by (blast dest: in_set_takeD)
    then have "d \<in> set (filter (passes ?yr ?g) (vs query 30))"
      using first_per_title_set by blast
    then show ?thesis by simp
  qed
  have filt: "\<forall>d \<in> set (search_filtered vs query).
         (\<forall>lo hi m. ?yr = Some (lo, hi) \<and> year_marker_search (page_content d) = Some m
               \<longrightarrow> lo \<le> int_of_digits m \<and> int_of_digits m \<le> hi)
         \<and> (\<forall>g. ?g = Some g \<longrightarrow> contains g (lower (page_content d)))"
  proof
    fix d assume "d \<in> set (search_filtered vs query)"
    then have p: "passes ?yr ?g d" by (rule pass)
    have y: "\<forall>lo hi m. ?yr = Some (lo, hi) \<and> year_marker_search (page_content d) = Some m
               \<longrightarrow> lo \<le> int_of_digits m \<and> int_of_digits m \<le> hi"
      using p by (auto simp: passes_def year_rejects_def Let_def)
    have g: "\<forall>g. ?g = Some g \<longrightarrow> contains g (lower (page_content d))"
      using p by (auto simp: passes_def genre_rejects_def dest: parse_genre_nonempty)
    from y g show "(\<forall>lo hi m. ?yr = Some (lo, hi) \<and> year_marker_search (page_content d) = Some m
               \<longrightarrow> lo \<le> int_of_digits m \<and> int_of_digits m \<le> hi)
         \<and> (\<forall>g. ?g = Some g \<longrightarrow> contains g (lower (page_content d)))" by blast
  qed
  have out1: "search_filtered vs query = [] \<longrightarrow> search_movies (Some vs) query = no_movies_found"
    by (simp add: search_movies_def Let_def)
  have out2: "search_filtered vs query \<noteq> [] \<longrightarrow>
         search_movies (Some vs) query =
           ''Here is what I found:'' @ nl @ nl @ format_found 1 (search_filtered vs query)"
    by (simp add: search_movies_def Let_def)
  from len dist sub eq filt out1 out2 show ?thesis by blast
qed



theorem search_movies_at_most_five_distinct_filtered_witness:
  "map search_title (search_filtered demo_store ''90s Action movies'') = [''Heat'', ''Speed'']
   \<and> search_movies (Some demo_store) ''90s Action movies'' =
       ''Here is what I found:'' @ nl @ nl
         @ format_found 1 (search_filtered demo_store ''90s Action movies'')
   \<and> length (search_filtered demo_store ''90s Action movies'') \<le> 5"
proof -
  have t: "map search_title (search_filtered demo_store ''90s Action movies'') = [''Heat'', ''Speed'']"
    by code_simp
  then have "search_filtered demo_store ''90s Action movies'' \<noteq> []" by auto
  with t search_movies_at_most_five_distinct_filtered[of demo_store "''90s Action movies''"]
  show ?thesis by blast
qed

text \<open>
  The claim as stated has every entry returned satisfy the year filter. The description of
  a film of 2003 is indexed in two chunks, and only the first bears the marker of the year.
  For \<open>movies from the 90s\<close> the loop rejects the first chunk, does not record its
  title, and keeps the second: the film of 2003 is returned for the nineties.
\<close>

theorem search_movies_returns_film_outside_range_counterexample:
  "parse_year_range (lower ''movies from the 90s'') = Some (1990, 1999)
   \<and> sequel_store ''movies from the 90s'' 30 = [sequel_main_chunk, sequel_cast_chunk]
   \<and> search_title sequel_main_chunk = ''Bad Boys II''
   \<and> year_marker_search (page_content sequel_main_chunk) = Some ''2003''
   \<and> search_title sequel_cast_chunk = ''Bad Boys II''
   \<and> year_marker_search (page_content sequel_cast_chunk) = None
   \<and> search_filtered sequel_store ''movies from the 90s'' = [sequel_cast_chunk]
   \<and> \<not> satisfies_year_filter (parse_year_range (lower ''movies from the 90s'')) sequel_cast_chunk"
  by code_simp

section \<open>The year filter and texts without a marker\<close>

lemma marker_at_head:
  "(prefix ''Year: '' s \<and> digits_at 4 (drop 6 s)) =
   (\<exists>ds post. s = ''Year: '' @ ds @ post \<and> length ds = 4 \<and> list_all is_digit ds)"
proof
  assume a: "prefix ''Year: '' s \<and> digits_at 4 (drop 6 s)"
  then obtain r where r: "s = ''Year: '' @ r" by (auto simp: prefix_def)
  with a have d: "4 \<le> length r" "list_all is_digit (take 4 r)" by (auto simp: digits_at_def)
  have "s = ''Year: '' @ take 4 r @ drop 4 r" using r by simp
  moreover have "length (take 4 r) = 4" using d by simp
  ultimately show "\<exists>ds post. s = ''Year: '' @ ds @ post \<and> length ds = 4 \<and> list_all is_digit ds"
    using d(2) by blast
next
  assume "\<exists>ds post. s = ''Year: '' @ ds @ post \<and> length ds = 4 \<and> list_all is_digit ds"
  then show "prefix ''Year: '' s \<and> digits_at 4 (drop 6 s)"
    by (auto simp: digits_at_def)
qed

lemma year_marker_search_None_iff:
  "year_marker_search content = None \<longleftrightarrow> \<not> has_year_marker content"
proof (induction content)
  case Nil
  then show ?case by (simp add: has_year_marker_def)
next
  case (Cons c cs)
  show ?case
  proof (cases "prefix ''Year: '' (c # cs) \<and> digits_at 4 (drop 6 (c # cs))")
    case True
    then have "\<exists>ds post. c # cs = ''Year: '' @ ds @ post \<and> length ds = 4 \<and> list_all is_digit ds"
      using marker_at_head[of "c # cs"] by blast
    then have "has_year_marker (c # cs)"
      unfolding has_year_marker_def by (metis append_Nil)
    with True show ?thesis by simp
  next
    case False
    then have nohead: "\<not> (\<exists>ds post. c # cs = ''Year: '' @ ds @ post \<and> length ds = 4 \<and> list_all is_digit ds)"
      using marker_at_head[of "c # cs"] by blast
    have "has_year_marker (c # cs) \<longleftrightarrow> has_year_marker cs"
    proof
      assume "has_year_marker (c # cs)"
      then obtain pre ds post where e: "c # cs = pre @ ''Year: '' @ ds @ post"
        and l: "length ds = 4" "list_all is_digit ds"
        unfolding has_year_marker_def by blast
      show "has_year_marker cs"
      proof (cases pre)
        case Nil
        with e have "c # cs = ''Year: '' @ ds @ post" by (simp only: append_Nil)
        with l nohead show ?thesis by blast
      next
        case (Cons p pre')
        with e have "cs = pre' @ ''Year: '' @ ds @ post" by simp
        with l show ?thesis unfolding has_year_marker_def by blast
      qed
    next
      assume "has_year_marker cs"
      then obtain pre ds post where e: "cs = pre @ ''Year: '' @ ds @ post"
        and l: "length ds = 4" "list_all is_digit ds"
        unfolding has_year_marker_def by blast
      from e have "c # cs = (c # pre) @ ''Year: '' @ ds @ post" by simp
      with l show "has_year_marker (c # cs)" unfolding has_year_marker_def by blast
    qed
    moreover have "year_marker_search (c # cs) = year_marker_search cs"
      using False by (simp only: year_marker_search.simps if_False)
    ultimately show ?thesis using Cons.IH by (simp only:)
  qed
qed

lemma markerless_first_candidate_kept:
  assumes "year_marker_search (page_content d) = None"
    and "vs query 30 = d # rest"
    and "\<not> genre_rejects (parse_genre (lower query)) (page_content d)"
  shows "search_filtered vs query = d # tl (search_filtered vs query)"
proof -
  have p: "passes (parse_year_range (lower query)) (parse_genre (lower query)) d"
    using assms by (simp add: passes_def year_rejects_def split: option.splits)
  have "search_filtered vs query =
          take 5 (first_per_title {} (filter (passes (parse_year_range (lower query))
                                                     (parse_genre (lower query))) (vs query 30)))"
    using search_loop_spec[of "[]" "parse_year_range (lower query)" "parse_genre (lower query)" "vs query 30" "{}"]
    by (simp add: search_filtered_def Let_def)
  with p assms(2) show ?thesis by simp
qed

text \<open>
  Claim C10. The year check of \<open>search_movies\<close> drops a candidate exactly when a year
  range was parsed, the text bears a marker \<open>Year: NNNN\<close> and the year of the leftmost
  marker lies outside the range. A text without a marker is therefore never dropped by it,
  whatever the range, and such a chunk can appear in the results: when it is the first
  candidate and the genre check lets it through, it is among the entries kept.
\<close>

theorem year_filter_keeps_markerless_chunks:
  "(year_rejects year_range content \<longleftrightarrow>
      (\<exists>lo hi m. year_range = Some (lo, hi) \<and> year_marker_search content = Some m
                 \<and> \<not> (lo \<le> int_of_digits m \<and> int_of_digits m \<le> hi)))
   \<and> (\<not> has_year_marker content \<longrightarrow> \<not> year_rejects year_range content)
   \<and> (\<not> has_year_marker (page_content d) \<and> vs query 30 = d # rest
        \<and> \<not> genre_rejects (parse_genre (lower query)) (page_content d)
      \<longrightarrow> d \<in> set (search_filtered vs query))"
proof -
  have a: "year_rejects year_range content \<longleftrightarrow>
      (\<exists>lo hi m. year_range = Some (lo, hi) \<and> year_marker_search content = Some m
                 \<and> \<not> (lo \<le> int_of_digits m \<and> int_of_digits m \<le> hi))"
    by (auto simp: year_rejects_def Let_def split: option.splits)
  have b: "\<not> has_year_marker content \<longrightarrow> \<not> year_rejects year_range content"
    using year_marker_search_None_iff[of content]
    by (auto simp: year_rejects_def split: option.splits)
  have c: "\<not> has_year_marker (page_content d) \<and> vs query 30 = d # rest
        \<and> \<not> genre_rejects (parse_genre (lower query)) (page_content d)
      \<longrightarrow> d \<in> set (search_filtered vs query)"
  proof
    assume h: "\<not> has_year_marker (page_content d) \<and> vs query 30 = d # rest
        \<and> \<not> genre_rejects (parse_genre (lower query)) (page_content d)"
    then have "year_marker_search (page_content d) = None"
      by (simp add: year_marker_search_None_iff)
    with h have "search_filtered vs query = d # tl (search_filtered vs query)"
      by (blast intro: markerless_first_candidate_kept)
    then show "d \<in> set (search_filtered vs query)" by (metis list.set_intros(1))
  qed
  from a b c show ?thesis by blast
qed

theorem year_filter_keeps_markerless_chunks_witness:
  "parse_year_range (lower ''90s Action movies'') = Some (1990, 1999)
   \<and> year_marker_search (page_content markerless_chunk) = None
   \<and> markerless_chunk \<in> set (search_filtered markerless_store ''90s Action movies'')"
proof -
  have yr: "parse_year_range (lower ''90s Action movies'') = Some (1990, 1999)"
    by code_simp
  have none: "year_marker_search (page_content markerless_chunk) = None"
    by code_simp
  then have h1: "\<not> has_year_marker (page_content markerless_chunk)"
    using year_marker_search_None_iff[of "page_content markerless_chunk"] by blast
  have h2: "markerless_store ''90s Action movies'' 30 = markerless_chunk # demo_docs"
    by (simp add: markerless_store_def demo_docs_def)
  have h3: "\<not> genre_rejects (parse_genre (lower ''90s Action movies''))
                (page_content markerless_chunk)"
    by code_simp
  from year_filter_keeps_markerless_chunks
         [of _ _ markerless_chunk markerless_store "''90s Action movies''" demo_docs]
       h1 h2 h3
  have "markerless_chunk \<in> set (search_filtered markerless_store ''90s Action movies'')"
    by blast
  with yr none show ?thesis by blast
qed

section \<open>Recommendations leave out the reference and repeated titles\<close>








section \<open>Ingestion with both artifacts on disk\<close>

text \<open>
  Claim C7. When the cache file and the index both exist, \<open>ingest_movies\<close> only reads
  the cache: it reads no input file, processes no table, writes no cache and builds no
  index, and the disk it leaves is the disk it found. Running it again from there does
  what the first run did, so that two runs leave what one run leaves.
\<close>

theorem ingest_movies_existing_artifacts_untouched:
  assumes "cache_file d \<noteq> None" and "index_dir d \<noteq> None"
  shows "fst (snd (ingest_movies ff split_documents d)) = d
         \<and> snd (snd (ingest_movies ff split_documents d)) = [ReadPickle]
         \<and> ingest_movies ff split_documents (fst (snd (ingest_movies ff split_documents d)))
             = ingest_movies ff split_documents d"
proof -
  from assms(1) obtain p where p: "cache_file d = Some p" by blast
  show ?thesis
  proof (cases p)
    case Unreadable
    with p show ?thesis by (simp add: ingest_movies_def)
  next
    case (Pickled table)
    with p assms(2) show ?thesis by (simp add: ingest_movies_def handoff_def)
  qed
qed

theorem ingest_movies_existing_artifacts_untouched_witness:
  "ingest_movies demo_format (\<lambda>documents. documents) demo_disk = (Inr (), demo_disk, [ReadPickle])"
proof -
  have c: "cache_file demo_disk \<noteq> None" by (simp add: demo_disk_def)
  have i: "index_dir demo_disk \<noteq> None" by (simp add: demo_disk_def)
  have r: "fst (ingest_movies demo_format (\<lambda>documents. documents) demo_disk) = Inr ()"
    by (simp add: ingest_movies_def handoff_def demo_disk_def)
  from ingest_movies_existing_artifacts_untouched[OF c i, of demo_format "\<lambda>documents. documents"] r
  show ?thesis by (metis prod.collapse)
qed

section \<open>The description of a record\<close>

lemma description_join:
  "make_description ff row =
     join nl (field_lines ff row @ (if metascore_known (metascore row) then [metascore_line ff row] else []))"
  by (simp add: make_description_def field_lines_def metascore_line_def Let_def)

lemma str_nat_digits: "\<forall>c \<in> set (str_nat n). is_digit c"
proof (induction n rule: str_nat.induct)
  case (1 n)
  have d: "is_digit (char_of (48 + k))" if "k < 10" for k :: nat
    using that by (simp add: is_digit_def)
  show ?case
  proof (cases "n < 10")
    case True
    then show ?thesis using d[of n] by (subst str_nat.simps) simp
  next
    case False
    with 1 have "\<forall>c \<in> set (str_nat (n div 10)). is_digit c" by simp
    moreover have "is_digit (char_of (48 + n mod 10))" by (rule d) simp
    ultimately show ?thesis using False by (subst str_nat.simps) simp
  qed
qed

lemma one_line_digit: "is_digit c \<Longrightarrow> c \<noteq> CHR 0x0A"
  by (auto simp: is_digit_def)

lemma one_line_str_int: "one_line (str_int i)"
  using str_nat_digits one_line_digit by (auto simp: one_line_def str_int_def)

lemma one_line_int_or_unknown: "one_line (int_or_unknown x)"
  using one_line_str_int by (cases x) (auto simp: int_or_unknown_def one_line_def)


lemma field_lines_one_line:
  assumes "one_line_fields ff row"
  shows "\<forall>l \<in> set (field_lines ff row @ [metascore_line ff row]). CHR 0x0A \<notin> set l"
  using assms one_line_int_or_unknown[of "year row"] one_line_int_or_unknown[of "duration row"]
  by (simp add: field_lines_def metascore_line_def one_line_fields_def one_line_def)

lemma no_metascore_among_fields: "\<not> (\<exists>l \<in> set (field_lines ff row). prefix ''MetaScore: '' l)"
  by (simp add: field_lines_def)

text \<open>
  Claim C9. For every record the description is the eight labelled fields Title, Year,
  Genre, Rating, Director, Cast, Duration and Certificate, in this order and one per line,
  followed by a MetaScore line exactly when the metascore of the record is present and is
  not the string \<open>Unknown\<close>. For a record whose fields hold no line break, the lines of
  the description are these, and a line starting with \<open>MetaScore: \<close> is among them if
  and only if the metascore is known.
\<close>

theorem make_description_fields_then_metascore:
  "make_description ff row =
     join nl (field_lines ff row
              @ (if metascore_known (metascore row) then [metascore_line ff row] else []))
   \<and> (metascore_known (metascore row) \<longleftrightarrow> metascore row \<noteq> Missing \<and> metascore row \<noteq> Str ''Unknown'')
   \<and> (one_line_fields ff row \<longrightarrow>
        split_on nl (make_description ff row) =
          field_lines ff row @ (if metascore_known (metascore row) then [metascore_line ff row] else [])
        \<and> ((\<exists>l \<in> set (split_on nl (make_description ff row)). prefix ''MetaScore: '' l)
             \<longleftrightarrow> metascore_known (metascore row)))"
proof -
  let ?lines = "field_lines ff row
                @ (if metascore_known (metascore row) then [metascore_line ff row] else [])"
  have j: "make_description ff row = join nl ?lines" by (rule description_join)
  have k: "metascore_known (metascore row) \<longleftrightarrow> metascore row \<noteq> Missing \<and> metascore row \<noteq> Str ''Unknown''"
    by (simp add: metascore_known_def)
  have l: "split_on nl (make_description ff row) = ?lines
           \<and> ((\<exists>l \<in> set (split_on nl (make_description ff row)). prefix ''MetaScore: '' l)
                \<longleftrightarrow> metascore_known (metascore row))"
    if h: "one_line_fields ff row"
  proof -
    have ne: "?lines \<noteq> []" by (simp add: field_lines_def)
    have nonl: "\<forall>l \<in> set ?lines. CHR 0x0A \<notin> set l"
      using field_lines_one_line[OF h] by auto
    have s: "split_on nl (make_description ff row) = ?lines"
      unfolding j split_on_def nl_def using split_join_lines[OF ne nonl] .
    have m: "prefix ''MetaScore: '' (metascore_line ff row)" by (simp add: metascore_line_def)
    have "(\<exists>l \<in> set ?lines. prefix ''MetaScore: '' l) \<longleftrightarrow> metascore_known (metascore row)"
      using no_metascore_among_fields[of ff row] m by auto
    with s show ?thesis by simp
  qed
  from j k l show ?thesis by blast
qed

theorem make_description_fields_then_metascore_witness:
  "one_line_fields demo_format heat_row
   \<and> metascore_known (metascore heat_row)
   \<and> split_on nl (make_description demo_format heat_row)
       = [''Title: Heat'', ''Year: 1995'', ''Genre: Action, Crime'', ''Rating: 8.3/10'',
          ''Director: Michael Mann'', ''Cast: Al PacinoRobert De Niro'', ''Duration: 170 minutes'',
          ''Certificate: R'', ''MetaScore: 76.0/100'']"
proof -
  have h: "one_line_fields demo_format heat_row" by code_simp
  have k: "metascore_known (metascore heat_row)" by code_simp
  have f: "field_lines demo_format heat_row @ [metascore_line demo_format heat_row]
       = [''Title: Heat'', ''Year: 1995'', ''Genre: Action, Crime'', ''Rating: 8.3/10'',
          ''Director: Michael Mann'', ''Cast: Al PacinoRobert De Niro'', ''Duration: 170 minutes'',
          ''Certificate: R'', ''MetaScore: 76.0/100'']" by code_simp
  from make_description_fields_then_metascore[of demo_format heat_row] h k
  have "split_on nl (make_description demo_format heat_row)
          = field_lines demo_format heat_row
            @ (if metascore_known (metascore heat_row) then [metascore_line demo_format heat_row] else [])"
    by blast
  with h k f show ?thesis by (simp only: if_True simp_thms)
qed

section \<open>The quiz: its pool and its answer key\<close>











section \<open>The average of an empty subset\<close>

lemma str_nat_0: "str_nat 0 = ''0''"
  by code_simp

text \<open>
  Claim C2. In the mode \<open>average\<close>, on a query whose filters select no row of the table,
  \<open>get_movie_statistics\<close> does not raise; but what it reports is the mean of no value,
  printed as it is: the answer reads \<open>Average rating: nan/10 (based on 0 movies)\<close>,
  not a report that there is no data.
\<close>

theorem average_of_empty_subset_prints_nan:
  assumes "contains ''average'' (lower query)" and "stats_subset table query = []"
  shows "get_movie_statistics ff (Some table) query
           = Inr ''Average rating: nan/10 (based on 0 movies)''"
  using assms
  by (simp add: get_movie_statistics_def Let_def mean_def finite_values_def str_2f_def str_nat_0)

theorem average_of_empty_subset_prints_nan_witness:
  "stats_subset drama_only ''Average rating of horror movies'' = []
   \<and> get_movie_statistics demo_format (Some drama_only) ''Average rating of horror movies''
       = Inr ''Average rating: nan/10 (based on 0 movies)''"
proof -
  have a: "contains ''average'' (lower ''Average rating of horror movies'')" by code_simp
  have e: "stats_subset drama_only ''Average rating of horror movies'' = []" by code_simp
  from average_of_empty_subset_prints_nan[OF a e, of demo_format] e show ?thesis by simp
qed

section \<open>What a tool reads and what it changes\<close>

lemma keeps_objects_refl: "keeps_objects p p"
  by (simp add: keeps_objects_def)

lemma keeps_objects_trans: "keeps_objects p q \<Longrightarrow> keeps_objects q r \<Longrightarrow> keeps_objects p r"
  by (auto simp: keeps_objects_def)

lemma new_frame_keeps: "keeps_objects p (snd (new_frame t p))"
  by (auto simp: keeps_objects_def new_frame_def)

lemma new_frame_rows: "frame_rows (snd (new_frame t p)) (fst (new_frame t p)) = t"
  by (simp add: new_frame_def frame_rows_def)

lemma frame_copy_keeps: "keeps_objects p (snd (frame_copy r p))"
  by (simp add: frame_copy_def new_frame_keeps)

lemma frame_select_keeps: "keeps_objects p (snd (frame_select k r p))"
  by (simp add: frame_select_def new_frame_keeps)

lemma frame_nlargest5_keeps: "keeps_objects p (snd (frame_nlargest5 r p))"
  by (simp add: frame_nlargest5_def new_frame_keeps)

lemma frame_columns_keeps: "keeps_objects p (snd (frame_columns r p))"
  by (simp add: frame_columns_def new_frame_keeps)

lemma frame_sample_keeps: "keeps_objects p (snd (frame_sample r p))"
  by (auto simp: frame_sample_def keeps_objects_def new_frame_def)

lemma random_choice_keeps: "keeps_objects p (snd (random_choice p))"
  by (simp add: random_choice_def keeps_objects_def)

lemma similarity_search_keeps: "snd (similarity_search index query k p) = p"
  by (simp add: similarity_search_def)

lemma frame_copy_rows: "frame_rows (snd (frame_copy r p)) (fst (frame_copy r p)) = frame_rows p r"
  by (simp add: frame_copy_def new_frame_rows)

lemma frame_select_rows:
  "frame_rows (snd (frame_select k r p)) (fst (frame_select k r p)) = filter k (frame_rows p r)"
  by (simp add: frame_select_def new_frame_rows)

lemma frame_nlargest5_rows:
  "frame_rows (snd (frame_nlargest5 r p)) (fst (frame_nlargest5 r p)) = nlargest5 (frame_rows p r)"
  by (simp add: frame_nlargest5_def new_frame_rows)

lemma frame_columns_rows:
  "frame_rows (snd (frame_columns r p)) (fst (frame_columns r p)) = frame_rows p r"
  by (simp add: frame_columns_def new_frame_rows)

lemma call_search_movies_keeps: "snd (call_search_movies query p) = p"
  by (simp add: call_search_movies_def similarity_search_def Let_def split: option.splits)

lemma call_search_movies_answer:
  "fst (call_search_movies query p) = search_movies (global_vectorstore p) query"
  by (simp add: call_search_movies_def search_movies_def search_filtered_def similarity_search_def
                Let_def split: option.splits)

lemma call_recommend_similar_movies_keeps: "snd (call_recommend_similar_movies movie_title p) = p"
  by (simp add: call_recommend_similar_movies_def similarity_search_def Let_def
           split: option.splits list.splits)

lemma call_recommend_similar_movies_answer:
  "fst (call_recommend_similar_movies movie_title p)
     = recommend_similar_movies (global_vectorstore p) movie_title"
  by (simp add: call_recommend_similar_movies_def recommend_similar_movies_def
                similarity_search_def Let_def split: option.splits list.splits)

lemma new_frame_generators:
  "numpy_random (snd (new_frame t p)) = numpy_random p
   \<and> python_random (snd (new_frame t p)) = python_random p"
  by (simp add: new_frame_def)

lemma call_get_movie_statistics_run:
  assumes "global_df p = Some r"
  shows "\<exists>p'. call_get_movie_statistics ff query p
                  = (get_movie_statistics ff (Some (frame_rows p r)) query, p')
              \<and> keeps_objects p p'
              \<and> numpy_random p' = numpy_random p \<and> python_random p' = python_random p"
proof -
  let ?g = "parse_genre (lower query)" and ?y = "parse_year_range (lower query)"
  define c1 where "c1 = frame_copy r p"
  define c2 where "c2 = (case ?g of None \<Rightarrow> (fst c1, snd c1)
                         | Some g \<Rightarrow> if g = [] then (fst c1, snd c1)
                             else frame_select (\<lambda>m. contains (lower g) (lower (genre m))) (fst c1) (snd c1))"
  define c3 where "c3 = (case ?y of None \<Rightarrow> (fst c2, snd c2)
                         | Some (lo, hi) \<Rightarrow>
                             frame_select (\<lambda>m. num_ge (year m) (of_int lo) \<and> num_le (year m) (of_int hi))
                               (fst c2) (snd c2))"
  define c4 where "c4 = frame_nlargest5 (fst c3) (snd c3)"
  define c5 where "c5 = frame_columns (fst c4) (snd c4)"
  define t1 where "t1 = frame_rows p r"
  define t2 where "t2 = (case ?g of None \<Rightarrow> t1
                         | Some g \<Rightarrow> if g = [] then t1
                             else filter (\<lambda>m. contains (lower g) (lower (genre m))) t1)"
  define t3 where "t3 = (case ?y of None \<Rightarrow> t2
                         | Some (lo, hi) \<Rightarrow>
                             filter (\<lambda>m. num_ge (year m) (of_int lo) \<and> num_le (year m) (of_int hi)) t2)"
  have run: "call_get_movie_statistics ff query p =
          (if contains ''average'' (lower query) then
             (Inr (''Average rating: '' @ str_2f ff (mean (map rating (frame_rows (snd c3) (fst c3))))
                  @ ''/10 (based on '' @ str_nat (length (frame_rows (snd c3) (fst c3))) @ '' movies)''),
              snd c3)
           else if list_ex (\<lambda>x. contains x (lower query)) [''highest'', ''best'', ''top''] then
             (case top_lines ff (frame_rows (snd c5) (fst c5)) of
                Inl e \<Rightarrow> (Inl e, snd c5)
              | Inr lines \<Rightarrow> (Inr (''Highest rated movies:'' @ nl @ lines), snd c5))
           else (Inr (''Found '' @ str_nat (length (frame_rows (snd c3) (fst c3)))
                     @ '' movies matching your criteria.''), snd c3))"
    unfolding call_get_movie_statistics_def c5_def c4_def c3_def c2_def c1_def
    by (simp only: assms option.case Let_def split_beta)
  have k1: "keeps_objects p (snd c1)" unfolding c1_def by (rule frame_copy_keeps)
  have g1: "numpy_random (snd c1) = numpy_random p \<and> python_random (snd c1) = python_random p"
    unfolding c1_def frame_copy_def by (rule new_frame_generators)
  have r1: "frame_rows (snd c1) (fst c1) = t1" unfolding c1_def t1_def by (rule frame_copy_rows)
  have s2: "keeps_objects p (snd c2)
            \<and> (numpy_random (snd c2) = numpy_random p \<and> python_random (snd c2) = python_random p)
            \<and> frame_rows (snd c2) (fst c2) = t2"
  proof (cases "?g")
    case None
    then show ?thesis using k1 g1 r1 by (simp add: c2_def t2_def)
  next
    case (Some g)
    show ?thesis
    proof (cases "g = []")
      case True
      then show ?thesis using Some k1 g1 r1 by (simp add: c2_def t2_def)
    next
      case False
      let ?k = "\<lambda>m. contains (lower g) (lower (genre m))"
      have c: "c2 = frame_select ?k (fst c1) (snd c1)" using Some False by (simp add: c2_def)
      have "keeps_objects p (snd c2)"
        unfolding c using k1 frame_select_keeps keeps_objects_trans by blast
      moreover have "numpy_random (snd c2) = numpy_random p \<and> python_random (snd c2) = python_random p"
        unfolding c frame_select_def using g1 by (simp add: new_frame_generators)
      moreover have "frame_rows (snd c2) (fst c2) = t2"
        unfolding c using Some False r1 by (simp add: frame_select_rows t2_def)
      ultimately show ?thesis by blast
    qed
  qed
  have s3: "keeps_objects p (snd c3)
            \<and> (numpy_random (snd c3) = numpy_random p \<and> python_random (snd c3) = python_random p)
            \<and> frame_rows (snd c3) (fst c3) = t3"
  proof (cases "?y")
    case None
    then show ?thesis using s2 by (simp add: c3_def t3_def)
  next
    case (Some lh)
    obtain lo hi where lh: "lh = (lo, hi)" by (cases lh)
    let ?k = "\<lambda>m. num_ge (year m) (of_int lo) \<and> num_le (year m) (of_int hi)"
    have c: "c3 = frame_select ?k (fst c2) (snd c2)" using Some lh by (simp add: c3_def)
    have "keeps_objects p (snd c3)"
      unfolding c using s2 frame_select_keeps keeps_objects_trans by blast
    moreover have "numpy_random (snd c3) = numpy_random p \<and> python_random (snd c3) = python_random p"
      unfolding c frame_select_def using s2 by (simp add: new_frame_generators)
    moreover have "frame_rows (snd c3) (fst c3) = t3"
      unfolding c using Some lh s2 by (simp add: frame_select_rows t3_def)
    ultimately show ?thesis by blast
  qed
  have s5: "keeps_objects p (snd c5)
            \<and> (numpy_random (snd c5) = numpy_random p \<and> python_random (snd c5) = python_random p)
            \<and> frame_rows (snd c5) (fst c5) = nlargest5 t3"
  proof -
    have "keeps_objects p (snd c4)"
      unfolding c4_def using s3 frame_nlargest5_keeps keeps_objects_trans by blast
    then have "keeps_objects p (snd c5)"
      unfolding c5_def using frame_columns_keeps keeps_objects_trans by blast
    moreover have "numpy_random (snd c5) = numpy_random p \<and> python_random (snd c5) = python_random p"
      unfolding c5_def c4_def frame_columns_def frame_nlargest5_def
      using s3 by (simp add: new_frame_generators)
    moreover have "frame_rows (snd c5) (fst c5) = nlargest5 t3"
      unfolding c5_def c4_def using s3 by (simp add: frame_columns_rows frame_nlargest5_rows)
    ultimately show ?thesis by blast
  qed
  have sub: "stats_subset t1 query = t3"
    unfolding stats_subset_def Let_def t3_def t2_def by (simp split: option.splits)
  have pure: "get_movie_statistics ff (Some t1) query =
          (if contains ''average'' (lower query) then
             Inr (''Average rating: '' @ str_2f ff (mean (map rating t3))
                  @ ''/10 (based on '' @ str_nat (length t3) @ '' movies)'')
           else if list_ex (\<lambda>x. contains x (lower query)) [''highest'', ''best'', ''top''] then
             (case top_lines ff (nlargest5 t3) of
                Inl e \<Rightarrow> Inl e
              | Inr lines \<Rightarrow> Inr (''Highest rated movies:'' @ nl @ lines))
           else Inr (''Found '' @ str_nat (length t3) @ '' movies matching your criteria.''))"
    unfolding get_movie_statistics_def by (simp only: option.case Let_def sub)
  consider (avg) "contains ''average'' (lower query)"
    | (top) "\<not> contains ''average'' (lower query)"
            "list_ex (\<lambda>x. contains x (lower query)) [''highest'', ''best'', ''top'']"
    | (count) "\<not> contains ''average'' (lower query)"
            "\<not> list_ex (\<lambda>x. contains x (lower query)) [''highest'', ''best'', ''top'']"
    by blast
  then show ?thesis
  proof cases
    case avg
    have "call_get_movie_statistics ff query p
            = (get_movie_statistics ff (Some (frame_rows p r)) query, snd c3)"
      unfolding run pure t1_def[symmetric] using avg s3 by (simp only: if_True)
    then show ?thesis using s3 by blast
  next
    case top
    have "call_get_movie_statistics ff query p
            = (get_movie_statistics ff (Some (frame_rows p r)) query, snd c5)"
      unfolding run pure t1_def[symmetric] using top s5
      by (cases "top_lines ff (nlargest5 t3)") (simp_all only: if_True if_False sum.case)
    then show ?thesis using s5 by blast
  next
    case count
    have "call_get_movie_statistics ff query p
            = (get_movie_statistics ff (Some (frame_rows p r)) query, snd c3)"
      unfolding run pure t1_def[symmetric] using count s3 by (simp only: if_False)
    then show ?thesis using s3 by blast
  qed
qed

lemma call_generate_movie_quiz_keeps:
  "keeps_objects p (snd (call_generate_movie_quiz query p))"
proof (cases "global_df p")
  case None
  then show ?thesis by (simp add: call_generate_movie_quiz_def keeps_objects_refl)
next
  case (Some r)
  define c1 where "c1 = frame_select (\<lambda>m. num_ge (rating m) 7 \<and> num_ge (year m) 2000) r p"
  define c2 where "c2 = frame_sample (fst c1) (snd c1)"
  define c3 where "c3 = random_choice (snd c2)"
  have k1: "keeps_objects p (snd c1)" unfolding c1_def by (rule frame_select_keeps)
  have k3: "keeps_objects p (snd c3)"
    unfolding c3_def c2_def
    using k1 frame_sample_keeps random_choice_keeps keeps_objects_trans by blast
  have "snd (call_generate_movie_quiz query p) = snd c1
        \<or> snd (call_generate_movie_quiz query p) = snd c3"
    using Some
    by (simp add: call_generate_movie_quiz_def Let_def split_beta c1_def c2_def c3_def)
  with k1 k3 show ?thesis by auto
qed

lemma call_generate_movie_quiz_answer:
  "fst (call_generate_movie_quiz query p) = fst (generate_movie_quiz (state_of p) query)"
proof (cases "global_df p")
  case None
  then show ?thesis
    by (simp add: call_generate_movie_quiz_def generate_movie_quiz_def state_of_def cached_table_def)
next
  case (Some r)
  define c1 where "c1 = frame_select (\<lambda>m. num_ge (rating m) 7 \<and> num_ge (year m) 2000) r p"
  define c2 where "c2 = frame_sample (fst c1) (snd c1)"
  have r1: "frame_rows (snd c1) (fst c1) = quiz_pool (frame_rows p r)"
    unfolding c1_def by (simp add: frame_select_rows quiz_pool_def)
  have n1: "numpy_random (snd c1) = numpy_random p" "python_random (snd c1) = python_random p"
    unfolding c1_def by (simp_all add: frame_select_def new_frame_def)
  have r2: "frame_rows (snd c2) (fst c2)
              = [quiz_pool (frame_rows p r) ! (shd (numpy_random p) mod length (quiz_pool (frame_rows p r)))]"
    unfolding c2_def frame_sample_def by (simp add: new_frame_rows r1 n1)
  have n2: "python_random (snd c2) = python_random p"
    unfolding c2_def by (simp add: frame_sample_def new_frame_def n1)
  have "fst (call_generate_movie_quiz query p) =
          (if length (frame_rows (snd c1) (fst c1)) < 5 then not_enough_data
           else quiz_response (frame_rows (snd c2) (fst c2) ! 0) (shd (python_random (snd c2))))"
    using Some
    by (simp add: call_generate_movie_quiz_def Let_def split_beta c1_def c2_def random_choice_def)
  then show ?thesis
    using Some unfolding r1 r2 n2
    by (simp add: generate_movie_quiz_def state_of_def cached_table_def Let_def)
qed

lemma keeps_objects_table:
  "well_formed p \<Longrightarrow> keeps_objects p p' \<Longrightarrow> cached_table p' = cached_table p \<and> well_formed p'"
  by (cases "global_df p") (auto simp: keeps_objects_def well_formed_def cached_table_def frame_rows_def)

lemma call_get_movie_statistics_keeps:
  "keeps_objects p (snd (call_get_movie_statistics ff query p))"
proof (cases "global_df p")
  case None
  then show ?thesis by (simp add: call_get_movie_statistics_def keeps_objects_refl)
next
  case (Some r)
  from call_get_movie_statistics_run[OF Some, of ff query] show ?thesis by auto
qed

lemma call_get_movie_statistics_generators:
  "numpy_random (snd (call_get_movie_statistics ff query p)) = numpy_random p
   \<and> python_random (snd (call_get_movie_statistics ff query p)) = python_random p"
proof (cases "global_df p")
  case None
  then show ?thesis by (simp add: call_get_movie_statistics_def)
next
  case (Some r)
  from call_get_movie_statistics_run[OF Some, of ff query] show ?thesis by auto
qed

lemma call_get_movie_statistics_answer:
  "fst (call_get_movie_statistics ff query p) = get_movie_statistics ff (cached_table p) query"
proof (cases "global_df p")
  case None
  then show ?thesis
    by (simp add: call_get_movie_statistics_def get_movie_statistics_def cached_table_def)
next
  case (Some r)
  from call_get_movie_statistics_run[OF Some, of ff query] show ?thesis
    using Some by (auto simp: cached_table_def)
qed

lemma invoke_keeps: "keeps_objects p (snd (invoke ff t query p))"
proof (cases t)
  case SearchMovies
  then show ?thesis using call_search_movies_keeps[of query p]
    by (simp add: split_beta keeps_objects_refl)
next
  case RecommendSimilarMovies
  then show ?thesis using call_recommend_similar_movies_keeps[of query p]
    by (simp add: split_beta keeps_objects_refl)
next
  case GetMovieStatistics
  then show ?thesis by (simp add: call_get_movie_statistics_keeps)
next
  case GenerateMovieQuiz
  then show ?thesis by (simp add: split_beta call_generate_movie_quiz_keeps)
qed

lemma invoke_generators:
  "t \<noteq> GenerateMovieQuiz \<Longrightarrow>
   numpy_random (snd (invoke ff t query p)) = numpy_random p
   \<and> python_random (snd (invoke ff t query p)) = python_random p"
  by (cases t)
     (simp_all add: split_beta call_search_movies_keeps call_recommend_similar_movies_keeps
        call_get_movie_statistics_generators)

lemma call_generate_movie_quiz_generators:
  assumes "cached_table p = Some table" "5 \<le> length (quiz_pool table)"
  shows "numpy_random (snd (call_generate_movie_quiz query p)) = stl (numpy_random p)
         \<and> python_random (snd (call_generate_movie_quiz query p)) = stl (python_random p)"
proof -
  from assms(1) obtain r where r: "global_df p = Some r" "frame_rows p r = table"
    by (auto simp: cached_table_def)
  define c1 where "c1 = frame_select (\<lambda>m. num_ge (rating m) 7 \<and> num_ge (year m) 2000) r p"
  have r1: "frame_rows (snd c1) (fst c1) = quiz_pool table"
    unfolding c1_def by (simp add: frame_select_rows quiz_pool_def r)
  have n1: "numpy_random (snd c1) = numpy_random p" "python_random (snd c1) = python_random p"
    unfolding c1_def by (simp_all add: frame_select_def new_frame_def)
  have "snd (call_generate_movie_quiz query p)
          = snd (random_choice (snd (frame_sample (fst c1) (snd c1))))"
    using r(1) assms(2) r1
    by (simp add: call_generate_movie_quiz_def Let_def split_beta c1_def[symmetric])
  then show ?thesis
    by (simp add: random_choice_def frame_sample_def new_frame_def n1)
qed

lemma invoke_reads_table_and_index:
  assumes "t \<noteq> GenerateMovieQuiz" "cached_table p' = cached_table p"
          "global_vectorstore p' = global_vectorstore p"
  shows "fst (invoke ff t query p') = fst (invoke ff t query p)"
  using assms
  by (cases t)
     (simp_all add: split_beta call_search_movies_answer call_recommend_similar_movies_answer
        call_get_movie_statistics_answer)

lemma quiz_reads_table_and_draws:
  assumes "cached_table p' = cached_table p" "shd (numpy_random p') = shd (numpy_random p)"
          "shd (python_random p') = shd (python_random p)"
  shows "fst (invoke ff GenerateMovieQuiz query p') = fst (invoke ff GenerateMovieQuiz query p)"
  using assms
  by (simp add: split_beta call_generate_movie_quiz_answer generate_movie_quiz_def state_of_def
        Let_def split: option.splits)

lemma well_formed_demo_process: "well_formed demo_process"
  by (simp add: well_formed_def demo_process_def)

lemma cached_table_demo_process: "cached_table demo_process = Some demo_table"
  by (simp add: cached_table_def demo_process_def frame_rows_def)

lemma state_of_demo_process: "state_of demo_process = demo_state"
  unfolding state_of_def cached_table_demo_process
  by (simp add: demo_process_def demo_state_def)

text \<open>
  Claim C3, as amended. No call of a tool changes the cached table, the index or any
  DataFrame object that exists when it starts: what the tools build, they build in new
  objects. \<open>search_movies\<close>, \<open>recommend_similar_movies\<close> and \<open>get_movie_statistics\<close>
  leave the random generators alone, and their answer is a function of the input, the
  table and the index, so that it is the same after any call of any tool. The answer of
  \<open>generate_movie_quiz\<close> is a function of the table and of the two random draws it makes,
  and a call with a pool of five or more records advances both generators.
\<close>

theorem tools_keep_table_and_index_quiz_draws:
  assumes "well_formed p"
  shows "(\<forall>r. r < heap_next p \<longrightarrow> heap_frames (snd (invoke ff t query p)) r = heap_frames p r)
   \<and> global_df (snd (invoke ff t query p)) = global_df p
   \<and> global_vectorstore (snd (invoke ff t query p)) = global_vectorstore p
   \<and> cached_table (snd (invoke ff t query p)) = cached_table p
   \<and> well_formed (snd (invoke ff t query p))
   \<and> (t \<noteq> GenerateMovieQuiz \<longrightarrow>
        numpy_random (snd (invoke ff t query p)) = numpy_random p
        \<and> python_random (snd (invoke ff t query p)) = python_random p)
   \<and> (t \<noteq> GenerateMovieQuiz \<longrightarrow>
        fst (invoke ff t query (snd (invoke ff t' query' p))) = fst (invoke ff t query p))
   \<and> (t \<noteq> GenerateMovieQuiz \<and> cached_table p' = cached_table p
        \<and> global_vectorstore p' = global_vectorstore p \<longrightarrow>
        fst (invoke ff t query p') = fst (invoke ff t query p))
   \<and> (cached_table p' = cached_table p \<and> shd (numpy_random p') = shd (numpy_random p)
        \<and> shd (python_random p') = shd (python_random p) \<longrightarrow>
        fst (invoke ff GenerateMovieQuiz query p') = fst (invoke ff GenerateMovieQuiz query p))
   \<and> (\<forall>table. cached_table p = Some table \<and> 5 \<le> length (quiz_pool table) \<longrightarrow>
        numpy_random (snd (invoke ff GenerateMovieQuiz query' p)) = stl (numpy_random p)
        \<and> python_random (snd (invoke ff GenerateMovieQuiz query' p)) = stl (python_random p))
   \<and> fst (invoke ff SearchMovies query p) = Inr (search_movies (global_vectorstore p) query)
   \<and> fst (invoke ff RecommendSimilarMovies query p)
       = Inr (recommend_similar_movies (global_vectorstore p) query)
   \<and> fst (invoke ff GetMovieStatistics query p) = get_movie_statistics ff (cached_table p) query
   \<and> fst (invoke ff GenerateMovieQuiz query p) = Inr (fst (generate_movie_quiz (state_of p) query))"
proof -
  have k: "keeps_objects p (snd (invoke ff t query p))" by (rule invoke_keeps)
  have k': "keeps_objects p (snd (invoke ff t' query' p))" by (rule invoke_keeps)
  have a: "\<forall>r. r < heap_next p \<longrightarrow> heap_frames (snd (invoke ff t query p)) r = heap_frames p r"
    using k by (simp add: keeps_objects_def)
  have b: "global_df (snd (invoke ff t query p)) = global_df p"
    using k by (simp add: keeps_objects_def)
  have c: "global_vectorstore (snd (invoke ff t query p)) = global_vectorstore p"
    using k by (simp add: keeps_objects_def)
  have d: "cached_table (snd (invoke ff t query p)) = cached_table p
           \<and> well_formed (snd (invoke ff t query p))"
    using keeps_objects_table[OF assms k] .
  have e: "t \<noteq> GenerateMovieQuiz \<longrightarrow>
        numpy_random (snd (invoke ff t query p)) = numpy_random p
        \<and> python_random (snd (invoke ff t query p)) = python_random p"
    using invoke_generators[of t ff query p] by blast
  have f: "t \<noteq> GenerateMovieQuiz \<longrightarrow>
        fst (invoke ff t query (snd (invoke ff t' query' p))) = fst (invoke ff t query p)"
  proof
    assume t: "t \<noteq> GenerateMovieQuiz"
    have "cached_table (snd (invoke ff t' query' p)) = cached_table p"
      using keeps_objects_table[OF assms k'] by blast
    moreover have "global_vectorstore (snd (invoke ff t' query' p)) = global_vectorstore p"
      using k' by (simp add: keeps_objects_def)
    ultimately show "fst (invoke ff t query (snd (invoke ff t' query' p))) = fst (invoke ff t query p)"
      using t by (rule invoke_reads_table_and_index[rotated])
  qed
  have g: "t \<noteq> GenerateMovieQuiz \<and> cached_table p' = cached_table p
        \<and> global_vectorstore p' = global_vectorstore p \<longrightarrow>
        fst (invoke ff t query p') = fst (invoke ff t query p)"
    using invoke_reads_table_and_index[of t p' p ff query] by blast
  have h: "cached_table p' = cached_table p \<and> shd (numpy_random p') = shd (numpy_random p)
        \<and> shd (python_random p') = shd (python_random p) \<longrightarrow>
        fst (invoke ff GenerateMovieQuiz query p') = fst (invoke ff GenerateMovieQuiz query p)"
    using quiz_reads_table_and_draws[of p' p ff query] by blast
  have i: "\<forall>table. cached_table p = Some table \<and> 5 \<le> length (quiz_pool table) \<longrightarrow>
        numpy_random (snd (invoke ff GenerateMovieQuiz query' p)) = stl (numpy_random p)
        \<and> python_random (snd (invoke ff GenerateMovieQuiz query' p)) = stl (python_random p)"
    using call_generate_movie_quiz_generators[of p _ query'] by (simp add: split_beta)
  have j: "fst (invoke ff SearchMovies query p) = Inr (search_movies (global_vectorstore p) query)"
    by (simp add: split_beta call_search_movies_answer)
  have k1: "fst (invoke ff RecommendSimilarMovies query p)
       = Inr (recommend_similar_movies (global_vectorstore p) query)"
    by (simp add: split_beta call_recommend_similar_movies_answer)
  have l: "fst (invoke ff GetMovieStatistics query p) = get_movie_statistics ff (cached_table p) query"
    by (simp add: call_get_movie_statistics_answer)
  have m: "fst (invoke ff GenerateMovieQuiz query p) = Inr (fst (generate_movie_quiz (state_of p) query))"
    by (simp add: split_beta call_generate_movie_quiz_answer)
  from a b c d e f g h i j k1 l m show ?thesis by blast
qed

theorem tools_keep_table_and_index_quiz_draws_witness:
  "well_formed demo_process
   \<and> heap_frames (snd (invoke demo_format GetMovieStatistics ''best drama movies'' demo_process)) 0
       = Some demo_table
   \<and> cached_table (snd (invoke demo_format GetMovieStatistics ''best drama movies'' demo_process))
       = Some demo_table
   \<and> numpy_random (snd (invoke demo_format GetMovieStatistics ''best drama movies'' demo_process))
       = 0 ## sconst 3
   \<and> fst (invoke demo_format GetMovieStatistics ''best drama movies''
            (snd (invoke demo_format GenerateMovieQuiz ''quiz me'' demo_process)))
       = fst (invoke demo_format GetMovieStatistics ''best drama movies'' demo_process)
   \<and> numpy_random (snd (invoke demo_format GenerateMovieQuiz ''quiz me'' demo_process)) = sconst 3
   \<and> python_random (snd (invoke demo_format GenerateMovieQuiz ''quiz me'' demo_process))
       = sconst False"
proof -
  let ?stats = "invoke demo_format GetMovieStatistics ''best drama movies''"
  let ?quiz = "invoke demo_format GenerateMovieQuiz ''quiz me''"
  have n: "GetMovieStatistics \<noteq> GenerateMovieQuiz" by simp
  have l5: "5 \<le> length (quiz_pool demo_table)" by code_simp
  have l: "cached_table demo_process = Some demo_table \<and> 5 \<le> length (quiz_pool demo_table)"
    using cached_table_demo_process l5 by blast
  have z: "(0::nat) < heap_next demo_process" by (simp add: demo_process_def)
  have f0: "heap_frames demo_process 0 = Some demo_table" by (simp add: demo_process_def)
  have g0: "numpy_random demo_process = 0 ## sconst 3" "stl (numpy_random demo_process) = sconst 3"
           "stl (python_random demo_process) = sconst False"
    by (simp_all add: demo_process_def)
  note T = tools_keep_table_and_index_quiz_draws
         [OF well_formed_demo_process,
          of demo_format GetMovieStatistics "''best drama movies''" GenerateMovieQuiz "''quiz me''"
             demo_process]
  have a: "heap_frames (snd (?stats demo_process)) 0 = heap_frames demo_process 0"
    using T z by blast
  have b: "cached_table (snd (?stats demo_process)) = cached_table demo_process"
    using T by blast
  have c: "numpy_random (snd (?stats demo_process)) = numpy_random demo_process"
    using T n by blast
  have d: "fst (?stats (snd (?quiz demo_process))) = fst (?stats demo_process)"
    using T n by blast
  have e: "numpy_random (snd (?quiz demo_process)) = stl (numpy_random demo_process)
           \<and> python_random (snd (?quiz demo_process)) = stl (python_random demo_process)"
    using T l by blast
  show ?thesis
    unfolding a b c d f0 g0(1) cached_table_demo_process
    using well_formed_demo_process e g0(2) g0(3) by (simp del: invoke.simps)
qed

text \<open>
  The claim as stated fails for \<open>generate_movie_quiz\<close>: a second call, with the same
  input, the same table and the same index, answers with another question.
\<close>

theorem quiz_answer_changes_between_calls_counterexample:
  "cached_table (snd (invoke demo_format GenerateMovieQuiz ''quiz me'' demo_process))
     = cached_table demo_process
   \<and> global_vectorstore (snd (invoke demo_format GenerateMovieQuiz ''quiz me'' demo_process))
     = global_vectorstore demo_process
   \<and> fst (invoke demo_format GenerateMovieQuiz ''quiz me''
             (snd (invoke demo_format GenerateMovieQuiz ''quiz me'' demo_process)))
       \<noteq> fst (invoke demo_format GenerateMovieQuiz ''quiz me'' demo_process)"
proof -
  define p1 where "p1 = snd (invoke demo_format GenerateMovieQuiz ''quiz me'' demo_process)"
  have l: "length (quiz_pool demo_table) = 5" by code_simp
  have k: "keeps_objects demo_process p1" unfolding p1_def by (rule invoke_keeps)
  have t1: "cached_table p1 = Some demo_table"
    using keeps_objects_table[OF well_formed_demo_process k] cached_table_demo_process by simp
  have v1: "global_vectorstore p1 = global_vectorstore demo_process"
    using k by (simp add: keeps_objects_def)
  have g1: "numpy_random p1 = sconst 3 \<and> python_random p1 = sconst False"
    using call_generate_movie_quiz_generators[OF cached_table_demo_process, of "''quiz me''"] l
    by (simp add: p1_def split_beta demo_process_def)
  have a1: "fst (invoke demo_format GenerateMovieQuiz ''quiz me'' demo_process)
              = Inr (quiz_response (quiz_pool demo_table ! 0) True)"
    unfolding invoke.simps split_beta fst_conv call_generate_movie_quiz_answer state_of_demo_process
    by (simp add: generate_movie_quiz_def Let_def l demo_state_def)
  have a2: "fst (invoke demo_format GenerateMovieQuiz ''quiz me'' p1)
              = Inr (quiz_response (quiz_pool demo_table ! 3) False)"
    by (simp add: split_beta call_generate_movie_quiz_answer generate_movie_quiz_def state_of_def
          Let_def l t1 g1)
  have ne: "quiz_response (quiz_pool demo_table ! 3) False \<noteq> quiz_response (quiz_pool demo_table ! 0) True"
    by (simp add: quiz_response_def Let_def)
  from a1 a2 ne t1 v1 show ?thesis
    unfolding p1_def[symmetric] cached_table_demo_process by simp
qed

end
